theory Spec2Isabelle
  imports Main "HOL-Library.Code_Target_Nat"
begin

section \<open>The clangd lint driver (scripts/clangd\_lint.py)\<close>

text \<open>
  The driver launches one clangd subprocess per file, speaks length-framed JSON-RPC with
  it, polls for pushed diagnostics under a five second budget, and prints the findings.

  The embedding has two layers. The framing layer works on bytes: \<open>send_request\<close>,
  \<open>send_notification\<close> and \<open>read_response\<close> are translated with the Python built-ins
  they call (\<open>str.encode\<close>, \<open>bytes.decode\<close>, \<open>str.strip\<close>, \<open>str.split\<close>, \<open>int\<close>,
  \<open>json.dumps\<close>). The session layer (\<open>lint_file\<close>, \<open>main\<close>) runs against a scripted
  subprocess: every call of \<open>read_response\<close> in the polling loop is answered by the next
  event of a script, and a clock in milliseconds is threaded through the state. The
  subprocess is part of that state: whether it runs, the signals sent to it, and whether
  and when it exits on SIGTERM.

  Conventions: a Python \<open>str\<close> is a list of Unicode code points, \<open>bytes\<close> a list of
  octets, both as natural numbers. An exception is a value of \<open>exn\<close>; a call either
  returns, raises or blocks forever (\<open>outcome\<close>). JSON numbers with a fraction or an
  exponent (Python floats) are outside the model, and so is the interpreter's limit on
  the number of digits \<open>int\<close> accepts; \<open>int\<close> is modelled for ASCII text. Standard
  output is taken to encode as UTF-8 and to accept every write.
\<close>

subsection \<open>Python values\<close>

type_synonym pystr = "nat list"
type_synonym bytes = "nat list"

definition ascii :: "string \<Rightarrow> pystr" where
  "ascii s = map of_char s"

datatype exn =
    ValueError
  | UnicodeDecodeError
  | UnicodeEncodeError
  | JSONDecodeError
  | AttributeError
  | TypeError
  | FileNotFoundError
  | BrokenPipeError

datatype 'a outcome = Returns 'a | Raises exn | Hangs

datatype json =
    JNull
  | JBool bool
  | JInt int
  | JStr pystr
  | JArr "json list"
  | JObj "(pystr \<times> json) list"

text \<open>Sequencing of calls that thread a state: the first raise or block ends the run.\<close>

definition and_then :: "'a outcome \<times> 's \<Rightarrow> ('a \<Rightarrow> 's \<Rightarrow> 'b outcome \<times> 's) \<Rightarrow> 'b outcome \<times> 's" where
  "and_then m f = (case m of
      (Returns x, s) \<Rightarrow> f x s
    | (Raises e, s) \<Rightarrow> (Raises e, s)
    | (Hangs, s) \<Rightarrow> (Hangs, s))"

definition lift :: "exn + 'a \<Rightarrow> 's \<Rightarrow> 'a outcome \<times> 's" where
  "lift r s = (case r of Inl e \<Rightarrow> (Raises e, s) | Inr x \<Rightarrow> (Returns x, s))"

text \<open>Truth value of a decoded JSON value, as \<open>if resp:\<close> tests it.\<close>

fun truthy :: "json \<Rightarrow> bool" where
  "truthy JNull = False"
| "truthy (JBool b) = b"
| "truthy (JInt i) = (i \<noteq> 0)"
| "truthy (JStr s) = (s \<noteq> [])"
| "truthy (JArr xs) = (xs \<noteq> [])"
| "truthy (JObj kvs) = (kvs \<noteq> [])"

text \<open>\<open>obj.get(key, default)\<close>: only a dict has the method.\<close>

definition get :: "json \<Rightarrow> pystr \<Rightarrow> json \<Rightarrow> exn + json" where
  "get obj key dflt = (case obj of
      JObj kvs \<Rightarrow> Inr (case map_of kvs key of None \<Rightarrow> dflt | Some v \<Rightarrow> v)
    | _ \<Rightarrow> Inl AttributeError)"

text \<open>\<open>key in obj\<close> for a dict.\<close>

definition has_key :: "json \<Rightarrow> pystr \<Rightarrow> bool" where
  "has_key obj key = (case obj of JObj kvs \<Rightarrow> map_of kvs key \<noteq> None | _ \<Rightarrow> False)"

text \<open>
  What \<open>list.extend(x)\<close> appends: the elements of a list, the characters of a string,
  the keys of a dict; any other value is not iterable.
\<close>

definition iterate :: "json \<Rightarrow> exn + json list" where
  "iterate x = (case x of
      JArr xs \<Rightarrow> Inr xs
    | JStr s \<Rightarrow> Inr (map (\<lambda>c. JStr [c]) s)
    | JObj kvs \<Rightarrow> Inr (map (\<lambda>kv. JStr (fst kv)) kvs)
    | _ \<Rightarrow> Inl TypeError)"

subsection \<open>Built-in string functions\<close>

text \<open>\<open>str(n)\<close> for an integer.\<close>

fun decimal :: "nat \<Rightarrow> pystr" where
  "decimal n = (if n < 10 then [48 + n] else decimal (n div 10) @ [48 + n mod 10])"

declare decimal.simps [simp del]

definition str_int :: "int \<Rightarrow> pystr" where
  "str_int i = (if i < 0 then 45 # decimal (nat (- i)) else decimal (nat i))"

text \<open>The characters \<open>str.strip()\<close> removes.\<close>

definition is_space :: "nat \<Rightarrow> bool" where
  "is_space c = ((9 \<le> c \<and> c \<le> 13) \<or> (28 \<le> c \<and> c \<le> 32) \<or> c = 133 \<or> c = 160
      \<or> c = 5760 \<or> (8192 \<le> c \<and> c \<le> 8202) \<or> c = 8232 \<or> c = 8233 \<or> c = 8239
      \<or> c = 8287 \<or> c = 12288)"

definition strip :: "pystr \<Rightarrow> pystr" where
  "strip s = rev (dropWhile is_space (rev (dropWhile is_space s)))"

text \<open>
  \<open>sep in s\<close> together with \<open>s.split(sep, 1)\<close>: the parts before and after the first
  occurrence of \<open>sep\<close>, or \<open>None\<close> when \<open>sep\<close> does not occur.
\<close>

fun split_once :: "pystr \<Rightarrow> pystr \<Rightarrow> (pystr \<times> pystr) option" where
  "split_once sep [] = None"
| "split_once sep (c # cs) =
     (if take (length sep) (c # cs) = sep then Some ([], drop (length sep) (c # cs))
      else map_option (\<lambda>kv. (c # fst kv, snd kv)) (split_once sep cs))"

text \<open>
  \<open>int(s)\<close> for an ASCII string: white space around the number is dropped, one sign is
  allowed, and the digits may be grouped by single underscores. The white space \<open>int\<close>
  skips in ASCII text is that of C (tab to carriage return, and the space), which is
  less than \<open>str.strip\<close> removes.
\<close>

definition is_c_space :: "nat \<Rightarrow> bool" where
  "is_c_space c = ((9 \<le> c \<and> c \<le> 13) \<or> c = 32)"

definition digit_val :: "nat \<Rightarrow> nat option" where
  "digit_val c = (if 48 \<le> c \<and> c \<le> 57 then Some (c - 48) else None)"

fun digits_val :: "nat \<Rightarrow> pystr \<Rightarrow> nat option" where
  "digits_val acc [] = Some acc"
| "digits_val acc [c] =
     (case digit_val c of None \<Rightarrow> None | Some v \<Rightarrow> Some (10 * acc + v))"
| "digits_val acc (c # d # ds) =
     (if c = 95 then
        (case digit_val d of None \<Rightarrow> None | Some v \<Rightarrow> digits_val (10 * acc + v) ds)
      else
        (case digit_val c of None \<Rightarrow> None | Some v \<Rightarrow> digits_val (10 * acc + v) (d # ds)))"

definition py_nat :: "pystr \<Rightarrow> nat option" where
  "py_nat s = (case s of
      [] \<Rightarrow> None
    | c # cs \<Rightarrow> (case digit_val c of None \<Rightarrow> None | Some v \<Rightarrow> digits_val v cs))"

definition py_int :: "pystr \<Rightarrow> int option" where
  "py_int s = (case rev (dropWhile is_c_space (rev (dropWhile is_c_space s))) of
      [] \<Rightarrow> None
    | c # cs \<Rightarrow>
        if c = 45 then map_option (\<lambda>n. - int n) (py_nat cs)
        else if c = 43 then map_option int (py_nat cs)
        else map_option int (py_nat (c # cs)))"

subsection \<open>UTF-8\<close>

text \<open>\<open>str.encode()\<close>: a lone surrogate cannot be encoded.\<close>

definition prepend :: "'a list \<Rightarrow> exn + 'a list \<Rightarrow> exn + 'a list" where
  "prepend xs r = (case r of Inl e \<Rightarrow> Inl e | Inr ys \<Rightarrow> Inr (xs @ ys))"

fun utf8_encode :: "pystr \<Rightarrow> exn + bytes" where
  "utf8_encode [] = Inr []"
| "utf8_encode (c # cs) =
     (if c < 128 then prepend [c] (utf8_encode cs)
      else if c < 2048 then prepend [192 + c div 64, 128 + c mod 64] (utf8_encode cs)
      else if 55296 \<le> c \<and> c < 57344 then Inl UnicodeEncodeError
      else if c < 65536 then
        prepend [224 + c div 4096, 128 + c div 64 mod 64, 128 + c mod 64] (utf8_encode cs)
      else if c < 1114112 then
        prepend [240 + c div 262144, 128 + c div 4096 mod 64, 128 + c div 64 mod 64,
                 128 + c mod 64] (utf8_encode cs)
      else Inl UnicodeEncodeError)"

text \<open>\<open>bytes.decode()\<close>: strict UTF-8, no overlong forms, no surrogates.\<close>

definition cont :: "nat \<Rightarrow> bool" where
  "cont b = (128 \<le> b \<and> b < 192)"

fun utf8_decode :: "bytes \<Rightarrow> exn + pystr" where
  "utf8_decode [] = Inr []"
| "utf8_decode (b # bs) =
     (if b < 128 then prepend [b] (utf8_decode bs)
      else if 194 \<le> b \<and> b < 224 then
        (case bs of
           b1 # r \<Rightarrow>
             if cont b1 then prepend [(b - 192) * 64 + (b1 - 128)] (utf8_decode r)
             else Inl UnicodeDecodeError
         | _ \<Rightarrow> Inl UnicodeDecodeError)
      else if 224 \<le> b \<and> b < 240 then
        (case bs of
           b1 # b2 # r \<Rightarrow>
             if cont b1 \<and> cont b2 \<and> (if b = 224 then 160 \<le> b1 else True)
                \<and> (if b = 237 then b1 < 160 else True)
             then prepend [(b - 224) * 4096 + (b1 - 128) * 64 + (b2 - 128)] (utf8_decode r)
             else Inl UnicodeDecodeError
         | _ \<Rightarrow> Inl UnicodeDecodeError)
      else if 240 \<le> b \<and> b < 245 then
        (case bs of
           b1 # b2 # b3 # r \<Rightarrow>
             if cont b1 \<and> cont b2 \<and> cont b3 \<and> (if b = 240 then 144 \<le> b1 else True)
                \<and> (if b = 244 then b1 < 144 else True)
             then prepend [(b - 240) * 262144 + (b1 - 128) * 4096 + (b2 - 128) * 64
                           + (b3 - 128)] (utf8_decode r)
             else Inl UnicodeDecodeError
         | _ \<Rightarrow> Inl UnicodeDecodeError)
      else Inl UnicodeDecodeError)"

subsection \<open>json.dumps\<close>

text \<open>
  The defaults of \<open>json.dumps\<close>: items separated by \<open>", "\<close>, keys by \<open>": "\<close>, and
  \<open>ensure_ascii\<close> on, so every character outside \<open>' '..'~'\<close> is written as an escape.
\<close>

definition hex_digit :: "nat \<Rightarrow> nat" where
  "hex_digit d = (if d < 10 then 48 + d else 87 + d)"

definition u_escape :: "nat \<Rightarrow> pystr" where
  "u_escape n = [92, 117, hex_digit (n div 4096 mod 16), hex_digit (n div 256 mod 16),
                 hex_digit (n div 16 mod 16), hex_digit (n mod 16)]"

definition escape_char :: "nat \<Rightarrow> pystr" where
  "escape_char c =
     (if c = 34 then [92, 34]
      else if c = 92 then [92, 92]
      else if c = 10 then [92, 110]
      else if c = 13 then [92, 114]
      else if c = 9 then [92, 116]
      else if c = 12 then [92, 102]
      else if c = 8 then [92, 98]
      else if 32 \<le> c \<and> c < 127 then [c]
      else if c < 65536 then u_escape c
      else u_escape (55296 + (c - 65536) div 1024 mod 1024)
           @ u_escape (56320 + (c - 65536) mod 1024))"

definition quoted :: "pystr \<Rightarrow> pystr" where
  "quoted s = 34 # concat (map escape_char s) @ [34]"

fun joined :: "pystr \<Rightarrow> pystr list \<Rightarrow> pystr" where
  "joined sep [] = []"
| "joined sep [x] = x"
| "joined sep (x # y # ys) = x @ sep @ joined sep (y # ys)"

fun dumps :: "json \<Rightarrow> pystr" where
  "dumps JNull = ascii ''null''"
| "dumps (JBool b) = (if b then ascii ''true'' else ascii ''false'')"
| "dumps (JInt i) = str_int i"
| "dumps (JStr s) = quoted s"
| "dumps (JArr xs) = 91 # joined (ascii '', '') (map dumps xs) @ [93]"
| "dumps (JObj kvs) =
     123 # joined (ascii '', '') (map (\<lambda>(k, v). quoted k @ ascii '': '' @ dumps v) kvs) @ [125]"

subsection \<open>Framing: what is written to the subprocess\<close>

text \<open>
  \<open>send_request\<close> and \<open>send_notification\<close> serialise a dict with \<open>json.dumps\<close>, put
  \<open>Content-Length: {len(msg)}\<close> and an empty line before it, encode the whole as UTF-8 and
  write it to the subprocess's standard input. \<open>len(msg)\<close> counts characters.
\<close>

definition request_message :: "pystr \<Rightarrow> json \<Rightarrow> json \<Rightarrow> json" where
  "request_message method params msg_id =
     JObj [(ascii ''jsonrpc'', JStr (ascii ''2.0'')), (ascii ''id'', msg_id),
           (ascii ''method'', JStr method), (ascii ''params'', params)]"

definition notification_message :: "pystr \<Rightarrow> json \<Rightarrow> json" where
  "notification_message method params =
     JObj [(ascii ''jsonrpc'', JStr (ascii ''2.0'')), (ascii ''method'', JStr method),
           (ascii ''params'', params)]"

definition content :: "pystr \<Rightarrow> pystr" where
  "content msg = ascii ''Content-Length: '' @ decimal (length msg) @ [13, 10, 13, 10] @ msg"

subsection \<open>Framing: what is read from the subprocess\<close>

text \<open>
  The subprocess's standard output as \<open>read_response\<close> sees it: the bytes not yet read,
  and whether the subprocess has closed the pipe after them. A read that needs more than
  is there returns short at end of file and blocks forever on an open pipe.
\<close>

record stream =
  data :: bytes
  closed :: bool

text \<open>
  \<open>select\<close> reports the pipe readable when there is a byte or the end of file. The
  reader's buffer and the pipe are seen as one here: bytes that an earlier \<open>readline\<close>
  or \<open>read\<close> pulled into the buffer of \<open>proc.stdout\<close> are hidden from the real
  \<open>select\<close>. The session layer does not depend on this: there every call of
  \<open>read_response\<close> is an event of its own.
\<close>

definition ready :: "stream \<Rightarrow> bool" where
  "ready s = (data s \<noteq> [] \<or> closed s)"

definition readline :: "stream \<Rightarrow> bytes outcome \<times> stream" where
  "readline s =
     (if 10 \<in> set (data s) then
        (Returns (takeWhile (\<lambda>b. b \<noteq> 10) (data s) @ [10]),
         s\<lparr>data := tl (dropWhile (\<lambda>b. b \<noteq> 10) (data s))\<rparr>)
      else if closed s then (Returns (data s), s\<lparr>data := []\<rparr>)
      else (Hangs, s))"

text \<open>
  \<open>read(n)\<close>: \<open>-1\<close> reads to the end of file, a lower \<open>n\<close> is refused. A length
  outside the machine word (below \<open>-2^63\<close>, or \<open>2^63\<close> and more), which \<open>read\<close> refuses
  with OverflowError, is not told apart from the others: no message held in memory is
  that long.
\<close>

definition read :: "int \<Rightarrow> stream \<Rightarrow> bytes outcome \<times> stream" where
  "read n s =
     (if n < - 1 then (Raises ValueError, s)
      else if 0 \<le> n \<and> nat n \<le> length (data s) then
        (Returns (take (nat n) (data s)), s\<lparr>data := drop (nat n) (data s)\<rparr>)
      else if closed s then (Returns (data s), s\<lparr>data := []\<rparr>)
      else (Hangs, s))"

text \<open>
  The header loop of \<open>read_response\<close>: lines are read, decoded and stripped until one
  is empty; a line holding \<open>": "\<close> is stored under the part before it.
\<close>

function read_headers :: "(pystr \<rightharpoonup> pystr) \<Rightarrow> stream \<Rightarrow> (pystr \<rightharpoonup> pystr) outcome \<times> stream" where
  "read_headers headers s =
     (case readline s of
        (Hangs, s') \<Rightarrow> (Hangs, s')
      | (Raises e, s') \<Rightarrow> (Raises e, s')
      | (Returns raw, s') \<Rightarrow>
          (case utf8_decode raw of
             Inl e \<Rightarrow> (Raises e, s')
           | Inr decoded \<Rightarrow>
               if strip decoded = [] then (Returns headers, s')
               else
                 (case split_once (ascii '': '') (strip decoded) of
                    None \<Rightarrow> read_headers headers s'
                  | Some (key, val) \<Rightarrow> read_headers (headers(key \<mapsto> val)) s')))"
  by pat_completeness auto

lemma readline_consumes:
  "readline s = (Returns raw, s') \<Longrightarrow> raw \<noteq> [] \<Longrightarrow> length (data s') < length (data s)"
proof -
  assume r: "readline s = (Returns raw, s')" and ne: "raw \<noteq> []"
  show ?thesis
  proof (cases "10 \<in> set (data s)")
    case True
    then have "dropWhile (\<lambda>b. b \<noteq> 10) (data s) \<noteq> []" by simp
    then have "length (tl (dropWhile (\<lambda>b. b \<noteq> 10) (data s))) < length (dropWhile (\<lambda>b. b \<noteq> 10) (data s))"
      by simp
    moreover have "length (dropWhile (\<lambda>b. b \<noteq> 10) (data s)) \<le> length (data s)"
      by (rule length_dropWhile_le)
    ultimately have "length (tl (dropWhile (\<lambda>b. b \<noteq> 10) (data s))) < length (data s)"
      by linarith
    then show ?thesis using r True by (auto simp: readline_def)
  next
    case False
    then show ?thesis using r ne by (auto simp: readline_def split: if_splits)
  qed
qed

lemma strip_Nil [simp]: "strip [] = []"
  by (simp add: strip_def)

termination read_headers
proof (relation "measure (\<lambda>(h, s). length (data s))")
  show "wf (measure (\<lambda>(h, s). length (data s)))" by simp
next
  fix headers :: "pystr \<rightharpoonup> pystr" and s x a b x3 ba
  assume "(x, a) = readline s" "x = Returns x3" "utf8_decode x3 = Inr ba" "strip ba \<noteq> []"
  then have "readline s = (Returns x3, a)" "x3 \<noteq> []" by auto
  then have "length (data a) < length (data s)" by (rule readline_consumes)
  then show "((headers, a), headers, s) \<in> measure (\<lambda>(h, s). length (data s))" by simp
next
  fix headers :: "pystr \<rightharpoonup> pystr" and s x a b x3 ba x2 xa y
  assume "(x, a) = readline s" "x = Returns x3" "utf8_decode x3 = Inr ba" "strip ba \<noteq> []"
  then have "readline s = (Returns x3, a)" "x3 \<noteq> []" by auto
  then have "length (data a) < length (data s)" by (rule readline_consumes)
  then show "((headers(xa \<mapsto> y), a), headers, s) \<in> measure (\<lambda>(h, s). length (data s))" by simp
qed

declare read_headers.simps [simp del]

text \<open>
  \<open>read_response\<close> without its clock (the session layer threads the time): \<open>None\<close>
  when nothing is readable, otherwise the header block, the declared length, the body
  and \<open>json.loads\<close>, which is a parameter.
\<close>

definition read_response :: "(pystr \<Rightarrow> exn + json) \<Rightarrow> stream \<Rightarrow> json option outcome \<times> stream" where
  "read_response loads s =
     (if \<not> ready s then (Returns None, s)
      else
        and_then (read_headers Map.empty s) (\<lambda>headers s.
          case (case headers (ascii ''Content-Length'') of None \<Rightarrow> Some 0 | Some v \<Rightarrow> py_int v) of
            None \<Rightarrow> (Raises ValueError, s)
          | Some len \<Rightarrow>
              if len \<noteq> 0 then
                and_then (read len s) (\<lambda>raw s.
                and_then (lift (utf8_decode raw) s) (\<lambda>body s.
                and_then (lift (loads body) s) (\<lambda>msg s. (Returns (Some msg), s))))
              else (Returns None, s)))"

subsection \<open>The session: a scripted subprocess and a clock\<close>

text \<open>
  In the polling loop the subprocess is a script of events, one for each call of
  \<open>read_response\<close>: the call returns a decoded message, returns \<open>None\<close>, raises, or
  blocks forever in \<open>readline\<close> or \<open>read\<close>. An event carries the milliseconds the call
  took. When the script is used up the subprocess stays silent, and every further call
  times out after its full slice.
\<close>

datatype event =
    Message json nat
  | Nothing nat
  | Failure exn nat
  | Stall

text \<open>The event a call of \<open>read_response\<close> on the bytes \<open>s\<close> amounts to.\<close>

definition event_of :: "(pystr \<Rightarrow> exn + json) \<Rightarrow> nat \<Rightarrow> stream \<Rightarrow> event" where
  "event_of loads d s = (case fst (read_response loads s) of
      Returns (Some msg) \<Rightarrow> Message msg d
    | Returns None \<Rightarrow> Nothing d
    | Raises e \<Rightarrow> Failure e d
    | Hangs \<Rightarrow> Stall)"

datatype pstate = NotStarted | Running | Reaped

datatype signal = SIGTERM

text \<open>
  The subprocess, as \<open>proc\<close> stands for it: its state, the signals sent to it, and how
  many milliseconds after SIGTERM it exits (\<open>None\<close>: it does not exit on SIGTERM). A
  subprocess that got no signal runs on: \<open>lint_file\<close> never closes its standard input.
\<close>

record subprocess =
  state :: pstate
  signals :: "signal list"
  exits_after :: "nat option"

text \<open>
  What surrounds one call of \<open>lint_file\<close>: whether \<open>Popen\<close> fails, the process id, the
  path \<open>os.path.abspath(os.path.join(root_dir, filepath))\<close>, what opening and reading a
  path gives, the clock, the script, how many writes the subprocess's standard input
  still takes before the pipe breaks (\<open>None\<close>: it never breaks), what has been written
  to it, and the subprocess.
\<close>

record session =
  launch :: "exn option"
  pid :: int
  resolve :: "pystr \<Rightarrow> pystr \<Rightarrow> pystr"
  files :: "pystr \<Rightarrow> exn + pystr"
  clock :: nat
  script :: "event list"
  writes_left :: "nat option"
  stdin_log :: "bytes list"
  proc :: subprocess

definition write_stdin :: "bytes \<Rightarrow> session \<Rightarrow> unit outcome \<times> session" where
  "write_stdin bs w = (case writes_left w of
      None \<Rightarrow> (Returns (), w\<lparr>stdin_log := stdin_log w @ [bs]\<rparr>)
    | Some 0 \<Rightarrow> (Raises BrokenPipeError, w)
    | Some (Suc n) \<Rightarrow> (Returns (), w\<lparr>stdin_log := stdin_log w @ [bs], writes_left := Some n\<rparr>))"

definition send_request :: "session \<Rightarrow> pystr \<Rightarrow> json \<Rightarrow> json \<Rightarrow> unit outcome \<times> session" where
  "send_request w method params msg_id =
     and_then (lift (utf8_encode (content (dumps (request_message method params msg_id)))) w)
       write_stdin"

definition send_notification :: "session \<Rightarrow> pystr \<Rightarrow> json \<Rightarrow> unit outcome \<times> session" where
  "send_notification w method params =
     and_then (lift (utf8_encode (content (dumps (notification_message method params)))) w)
       write_stdin"

text \<open>\<open>read_response(proc, timeout)\<close> against the script.\<close>

definition next_response :: "nat \<Rightarrow> session \<Rightarrow> json option outcome \<times> session" where
  "next_response timeout w = (case script w of
      [] \<Rightarrow> (Returns None, w\<lparr>clock := clock w + timeout\<rparr>)
    | Message msg d # es \<Rightarrow> (Returns (Some msg), w\<lparr>clock := clock w + d, script := es\<rparr>)
    | Nothing d # es \<Rightarrow> (Returns None, w\<lparr>clock := clock w + d, script := es\<rparr>)
    | Failure e d # es \<Rightarrow> (Raises e, w\<lparr>clock := clock w + d, script := es\<rparr>)
    | Stall # es \<Rightarrow> (Hangs, w\<lparr>script := es\<rparr>))"

definition sleep :: "nat \<Rightarrow> session \<Rightarrow> session" where
  "sleep d w = w\<lparr>clock := clock w + d\<rparr>"

text \<open>\<open>subprocess.Popen\<close>, when it succeeds: a running subprocess, no signal sent yet.\<close>

definition popen :: "session \<Rightarrow> session" where
  "popen w = w\<lparr>proc := (proc w)\<lparr>state := Running, signals := []\<rparr>\<rparr>"

text \<open>\<open>proc.terminate()\<close> sends SIGTERM.\<close>

definition terminate :: "session \<Rightarrow> session" where
  "terminate w = w\<lparr>proc := (proc w)\<lparr>signals := signals (proc w) @ [SIGTERM]\<rparr>\<rparr>"

text \<open>
  \<open>proc.wait()\<close> has no timeout: it returns when the subprocess has exited, and blocks
  forever on a subprocess that got no signal or does not exit on the one it got.
\<close>

definition wait :: "session \<Rightarrow> unit outcome \<times> session" where
  "wait w =
     (if state (proc w) = Running then
        (case exits_after (proc w) of
           Some d \<Rightarrow>
             if signals (proc w) \<noteq> [] then
               (Returns (), w\<lparr>proc := (proc w)\<lparr>state := Reaped\<rparr>, clock := clock w + d\<rparr>)
             else (Hangs, w)
         | None \<Rightarrow> (Hangs, w))
      else (Returns (), w))"

subsection \<open>lint\_file\<close>

record locals =
  initialized :: bool
  file_opened :: bool
  diagnostics :: "json list"

definition publishDiagnostics :: pystr where
  "publishDiagnostics = ascii ''textDocument/publishDiagnostics''"

text \<open>\<open>resp.get("params", {}).get("diagnostics", [])\<close>, as \<open>extend\<close> iterates it.\<close>

definition published :: "json \<Rightarrow> exn + json list" where
  "published resp = (case get resp (ascii ''params'') (JObj []) of
      Inl e \<Rightarrow> Inl e
    | Inr params \<Rightarrow>
        (case get params (ascii ''diagnostics'') (JArr []) of
           Inl e \<Rightarrow> Inl e
         | Inr ds \<Rightarrow> iterate ds))"

text \<open>The body of \<open>if resp:\<close> in the polling loop.\<close>

definition handle_response :: "json \<Rightarrow> locals \<Rightarrow> session \<Rightarrow> locals outcome \<times> session" where
  "handle_response resp st w =
     and_then (lift (get resp (ascii ''method'') JNull) w) (\<lambda>m w.
       if m = JStr publishDiagnostics then
         and_then (lift (published resp) w) (\<lambda>ds w.
           (Returns (st\<lparr>diagnostics := diagnostics st @ ds\<rparr>), w))
       else if has_key resp (ascii ''result'') \<and> \<not> initialized st then
         and_then (send_notification w (ascii ''initialized'') (JObj [])) (\<lambda>_ w.
           (Returns (st\<lparr>initialized := True\<rparr>), w))
       else (Returns st, w))"

text \<open>The body of \<open>if initialized and not file_opened:\<close>.\<close>

definition open_document :: "pystr \<Rightarrow> locals \<Rightarrow> session \<Rightarrow> locals outcome \<times> session" where
  "open_document abs_path st w =
     and_then (lift (files w abs_path) w) (\<lambda>src w.
     and_then (send_notification w (ascii ''textDocument/didOpen'')
        (JObj [(ascii ''textDocument'',
           JObj [(ascii ''uri'', JStr (ascii ''file://'' @ abs_path)),
                 (ascii ''languageId'', JStr (ascii ''cpp'')),
                 (ascii ''version'', JInt 1),
                 (ascii ''text'', JStr src)])])) (\<lambda>_ w.
       (Returns (st\<lparr>file_opened := True\<rparr>), w)))"

text \<open>The inner loop \<open>while (resp := read_response(proc, 0.1)):\<close>.\<close>

function drain :: "json list \<Rightarrow> session \<Rightarrow> json list outcome \<times> session" where
  "drain diags w =
     (case next_response 100 w of
        (Returns (Some resp), w') \<Rightarrow>
          if truthy resp then
            (case get resp (ascii ''method'') JNull of
               Inl e \<Rightarrow> (Raises e, w')
             | Inr m \<Rightarrow>
                 if m = JStr publishDiagnostics then
                   (case published resp of
                      Inl e \<Rightarrow> (Raises e, w')
                    | Inr ds \<Rightarrow> drain (diags @ ds) w')
                 else drain diags w')
          else (Returns diags, w')
      | (Returns None, w') \<Rightarrow> (Returns diags, w')
      | (Raises e, w') \<Rightarrow> (Raises e, w')
      | (Hangs, w') \<Rightarrow> (Hangs, w'))"
  by pat_completeness auto

lemma next_response_message:
  "next_response t w = (Returns (Some resp), w') \<Longrightarrow>
     \<exists>d es. script w = Message resp d # es \<and> w' = w\<lparr>clock := clock w + d, script := es\<rparr>"
  by (auto simp: next_response_def split: list.splits event.splits)

termination drain
proof (relation "measure (\<lambda>(diags, w). length (script w))")
  show "wf (measure (\<lambda>(diags, w). length (script w)))" by simp
next
  fix diags :: "json list" and w x w' r resp m ds
  assume "(x, w') = next_response 100 w" "x = Returns r" "r = Some resp"
  then have "next_response 100 w = (Returns (Some resp), w')" by simp
  then have "length (script w') < length (script w)"
    by (auto dest: next_response_message)
  then show "((diags @ ds, w'), diags, w) \<in> measure (\<lambda>(diags, w). length (script w))" by simp
next
  fix diags :: "json list" and w x w' r resp m
  assume "(x, w') = next_response 100 w" "x = Returns r" "r = Some resp"
  then have "next_response 100 w = (Returns (Some resp), w')" by simp
  then have "length (script w') < length (script w)"
    by (auto dest: next_response_message)
  then show "((diags, w'), diags, w) \<in> measure (\<lambda>(diags, w). length (script w))" by simp
qed

declare drain.simps [simp del]

text \<open>
  One pass through \<open>while time.time() - start < 5:\<close>, in its three steps: a response is
  read and handled; the document is opened once the session is initialized; and once
  the document is open and a diagnostic is there, the pass sleeps, reads on until a call
  returns nothing, and ends the loop. The flag returned with the locals says whether the
  pass ended in \<open>break\<close>.
\<close>

definition receive :: "locals \<Rightarrow> session \<Rightarrow> locals outcome \<times> session" where
  "receive st w =
     and_then (next_response 100 w) (\<lambda>resp w.
       case resp of
         None \<Rightarrow> (Returns st, w)
       | Some r \<Rightarrow> if truthy r then handle_response r st w else (Returns st, w))"

definition announce :: "pystr \<Rightarrow> locals \<Rightarrow> session \<Rightarrow> locals outcome \<times> session" where
  "announce abs_path st w =
     (if initialized st \<and> \<not> file_opened st then open_document abs_path st w
      else (Returns st, w))"

definition settle :: "locals \<Rightarrow> session \<Rightarrow> (bool \<times> locals) outcome \<times> session" where
  "settle st w =
     (if file_opened st \<and> diagnostics st \<noteq> [] then
        and_then (drain (diagnostics st) (sleep 200 w)) (\<lambda>ds w.
          (Returns (True, st\<lparr>diagnostics := ds\<rparr>), w))
      else (Returns (False, st), w))"

definition iteration :: "pystr \<Rightarrow> locals \<Rightarrow> session \<Rightarrow> (bool \<times> locals) outcome \<times> session" where
  "iteration abs_path st w =
     and_then (receive st w) (\<lambda>st w.
     and_then (announce abs_path st w) (\<lambda>st w.
       settle st w))"

text \<open>\<open>stopped_as a b\<close>: the call with outcome \<open>a\<close> raised or blocked, and \<open>b\<close> passes that on.\<close>

definition stopped_as :: "'a outcome \<Rightarrow> 'b outcome \<Rightarrow> bool" where
  "stopped_as a b = (case a of
      Returns x \<Rightarrow> False
    | Raises e \<Rightarrow> b = Raises e
    | Hangs \<Rightarrow> b = Hangs)"

lemma stopped_as_Returns [simp]: "\<not> stopped_as a (Returns x)" "\<not> stopped_as (Returns y) b"
  by (simp_all add: stopped_as_def split: outcome.splits)

lemma and_then_cases:
  assumes "and_then m f = (r, w')"
  obtains (returned) x s where "m = (Returns x, s)" "f x s = (r, w')"
  | (stopped) r0 where "m = (r0, w')" "stopped_as r0 r"
  using assms by (auto simp: and_then_def stopped_as_def split: prod.splits outcome.splits)

lemma write_stdin_frame:
  "write_stdin bs w = (r, w') \<Longrightarrow>
     script w' = script w \<and> clock w' = clock w \<and> proc w' = proc w"
  by (auto simp: write_stdin_def split: option.splits nat.splits)

lemma send_notification_frame:
  "send_notification w m p = (r, w') \<Longrightarrow>
     script w' = script w \<and> clock w' = clock w \<and> proc w' = proc w"
  by (auto simp: send_notification_def and_then_def lift_def split: sum.splits
      dest: write_stdin_frame)

lemma send_request_frame:
  "send_request w m p i = (r, w') \<Longrightarrow>
     script w' = script w \<and> clock w' = clock w \<and> proc w' = proc w"
  by (auto simp: send_request_def and_then_def lift_def split: sum.splits
      dest: write_stdin_frame)

lemma handle_response_frame:
  "handle_response resp st w = (r, w') \<Longrightarrow>
     script w' = script w \<and> clock w' = clock w \<and> proc w' = proc w"
  by (auto simp: handle_response_def and_then_def lift_def
      split: sum.splits if_splits prod.splits outcome.splits dest: send_notification_frame)

lemma open_document_frame:
  "open_document p st w = (r, w') \<Longrightarrow>
     script w' = script w \<and> clock w' = clock w \<and> proc w' = proc w"
  by (auto simp: open_document_def and_then_def lift_def
      split: sum.splits if_splits prod.splits outcome.splits dest: send_notification_frame)

lemma next_response_progress:
  "next_response t w = (r, w') \<Longrightarrow>
     (script w = [] \<and> script w' = [] \<and> clock w' = clock w + t)
     \<or> (length (script w') < length (script w) \<and> clock w \<le> clock w')"
  by (auto simp: next_response_def split: list.splits event.splits)

text \<open>
  A pass that does not end the loop has either taken an event from the script or, on an
  empty script, let a full slice of the clock go by.
\<close>

lemma receive_progress:
  assumes "receive st w = (r, w')"
  shows "(script w = [] \<and> script w' = [] \<and> clock w' = clock w + 100)
     \<or> (length (script w') < length (script w) \<and> clock w \<le> clock w')"
proof -
  from assms have "and_then (next_response 100 w) (\<lambda>resp w.
       case resp of
         None \<Rightarrow> (Returns st, w)
       | Some r \<Rightarrow> if truthy r then handle_response r st w else (Returns st, w)) = (r, w')"
    by (simp add: receive_def)
  then show ?thesis
  proof (rule and_then_cases)
    fix resp w1
    assume n: "next_response 100 w = (Returns resp, w1)"
      and h: "(case resp of
         None \<Rightarrow> (Returns st, w1)
       | Some r \<Rightarrow> if truthy r then handle_response r st w1 else (Returns st, w1)) = (r, w')"
    from h have "script w' = script w1 \<and> clock w' = clock w1"
      by (auto split: option.splits if_splits dest: handle_response_frame)
    with next_response_progress[OF n] show ?thesis by auto
  next
    fix r0
    assume "next_response 100 w = (r0, w')"
    from next_response_progress[OF this] show ?thesis by auto
  qed
qed

lemma announce_frame:
  "announce p st w = (r, w') \<Longrightarrow>
     script w' = script w \<and> clock w' = clock w \<and> proc w' = proc w"
  by (auto simp: announce_def split: if_splits dest: open_document_frame)

lemma settle_continues: "settle st w = (Returns (False, st'), w') \<Longrightarrow> w' = w"
  by (auto simp: settle_def and_then_def split: if_splits prod.splits outcome.splits)

lemma iteration_cases:
  assumes "iteration p st w = (r, w')"
  obtains (received) r0 where "receive st w = (r0, w')" "stopped_as r0 r"
  | (announced) st1 w1 r0 where "receive st w = (Returns st1, w1)"
      "announce p st1 w1 = (r0, w')" "stopped_as r0 r"
  | (settled) st1 w1 st2 w2 where "receive st w = (Returns st1, w1)"
      "announce p st1 w1 = (Returns st2, w2)" "settle st2 w2 = (r, w')"
  using assms unfolding iteration_def
  by (auto simp: and_then_def stopped_as_def split: prod.splits outcome.splits)

lemma iteration_progress:
  assumes "iteration p st w = (Returns (False, st'), w')"
  shows "(script w = [] \<and> script w' = [] \<and> clock w' = clock w + 100)
     \<or> (length (script w') < length (script w) \<and> clock w \<le> clock w')"
  using assms
proof (rule iteration_cases)
  fix st1 w1 st2 w2
  assume "receive st w = (Returns st1, w1)" "announce p st1 w1 = (Returns st2, w2)"
    "settle st2 w2 = (Returns (False, st'), w')"
  from settle_continues[OF this(3)] announce_frame[OF this(2)] receive_progress[OF this(1)]
  show ?thesis by auto
qed simp_all

text \<open>The loop \<open>while time.time() - start < 5:\<close>, the clock in milliseconds.\<close>

function poll_loop :: "pystr \<Rightarrow> nat \<Rightarrow> locals \<Rightarrow> session \<Rightarrow> json list outcome \<times> session" where
  "poll_loop abs_path start st w =
     (if clock w - start < 5000 then
        (case iteration abs_path st w of
           (Returns (False, st'), w') \<Rightarrow> poll_loop abs_path start st' w'
         | (Returns (True, st'), w') \<Rightarrow> (Returns (diagnostics st'), w')
         | (Raises e, w') \<Rightarrow> (Raises e, w')
         | (Hangs, w') \<Rightarrow> (Hangs, w'))
      else (Returns (diagnostics st), w))"
  by pat_completeness auto

termination poll_loop
proof (relation "measure (\<lambda>(p, start, st, w). length (script w) + (start + 5000 - clock w))")
  show "wf (measure (\<lambda>(p, start, st, w). length (script w) + (start + 5000 - clock w)))"
    by simp
next
  fix abs_path :: pystr and start :: nat and st w x w' r b st'
  assume c: "clock w - start < 5000" and i: "(x, w') = iteration abs_path st w"
    and x: "x = Returns r" "(b, st') = r" "b = False"
  from i x have "iteration abs_path st w = (Returns (False, st'), w')" by auto
  from iteration_progress[OF this] c
  have "length (script w') + (start + 5000 - clock w') < length (script w) + (start + 5000 - clock w)"
    by auto
  then show "((abs_path, start, st', w'), abs_path, start, st, w)
    \<in> measure (\<lambda>(p, start, st, w). length (script w) + (start + 5000 - clock w))"
    by simp
qed

declare poll_loop.simps [simp del]

definition lint_file :: "session \<Rightarrow> pystr \<Rightarrow> pystr \<Rightarrow> json list outcome \<times> session" where
  "lint_file w filepath root_dir =
     (case launch w of
        Some e \<Rightarrow> (Raises e, w)
      | None \<Rightarrow>
          and_then (send_request (popen w) (ascii ''initialize'')
              (JObj [(ascii ''processId'', JInt (pid w)),
                     (ascii ''rootUri'', JStr (ascii ''file://'' @ root_dir)),
                     (ascii ''capabilities'', JObj [])])
              (JInt 1)) (\<lambda>_ w.
          and_then (poll_loop (resolve w root_dir filepath) (clock w)
              \<lparr>initialized = False, file_opened = False, diagnostics = []\<rparr> w) (\<lambda>diags w.
          and_then (wait (terminate w)) (\<lambda>_ w.
            (Returns diags, w)))))"

subsection \<open>main\<close>

definition bind_sum :: "exn + 'a \<Rightarrow> ('a \<Rightarrow> exn + 'b) \<Rightarrow> exn + 'b" where
  "bind_sum r f = (case r of Inl e \<Rightarrow> Inl e | Inr x \<Rightarrow> f x)"

text \<open>\<open>x <= 2\<close> and \<open>x + 1\<close> for a decoded value: an integer or a boolean, else TypeError.\<close>

definition le2 :: "json \<Rightarrow> exn + bool" where
  "le2 x = (case x of JInt i \<Rightarrow> Inr (i \<le> 2) | JBool b \<Rightarrow> Inr True | _ \<Rightarrow> Inl TypeError)"

definition add1 :: "json \<Rightarrow> exn + int" where
  "add1 x = (case x of
      JInt i \<Rightarrow> Inr (i + 1)
    | JBool b \<Rightarrow> Inr (if b then 2 else 1)
    | _ \<Rightarrow> Inl TypeError)"

text \<open>
  A value inside an f-string: a string stands for itself, a number for its digits; how a
  list or a dict is rendered is left to the parameter \<open>render\<close>.
\<close>

definition py_str :: "(json \<Rightarrow> pystr) \<Rightarrow> json \<Rightarrow> pystr" where
  "py_str render x = (case x of
      JStr s \<Rightarrow> s
    | JInt i \<Rightarrow> str_int i
    | JBool b \<Rightarrow> (if b then ascii ''True'' else ascii ''False'')
    | JNull \<Rightarrow> ascii ''None''
    | _ \<Rightarrow> render x)"

text \<open>\<open>d.get("range", {}).get("start", {}).get(key, 0) + 1\<close>\<close>

definition start_field :: "json \<Rightarrow> pystr \<Rightarrow> exn + int" where
  "start_field d key =
     bind_sum (get d (ascii ''range'') (JObj [])) (\<lambda>range.
     bind_sum (get range (ascii ''start'') (JObj [])) (\<lambda>start.
     bind_sum (get start key (JInt 0)) add1))"

text \<open>
  The body of \<open>for d in diags:\<close>: the line printed for \<open>d\<close>, or \<open>None\<close> when the
  severity test fails.
\<close>

definition diagnostic_line :: "(json \<Rightarrow> pystr) \<Rightarrow> pystr \<Rightarrow> json \<Rightarrow> exn + pystr option" where
  "diagnostic_line render filepath d =
     bind_sum (get d (ascii ''severity'') (JInt 1)) (\<lambda>severity.
     bind_sum (le2 severity) (\<lambda>counted.
       if counted then
         bind_sum (start_field d (ascii ''line'')) (\<lambda>line.
         bind_sum (start_field d (ascii ''character'')) (\<lambda>col.
         bind_sum (get d (ascii ''message'') (JStr [])) (\<lambda>msg.
         bind_sum (get d (ascii ''code'') (JStr [])) (\<lambda>code.
           Inr (Some (filepath @ ascii '':'' @ str_int line @ ascii '':'' @ str_int col
                      @ ascii '': warning: '' @ py_str render msg
                      @ ascii '' ['' @ py_str render code @ ascii '']''))))))
       else Inr None))"

text \<open>
  \<open>print(s)\<close> on a standard output that encodes as UTF-8: a string with a lone
  surrogate, which \<open>json.loads\<close> gives for an escape like \<open>\ud800\<close>, cannot be encoded,
  and nothing of it is written. The other strings \<open>main\<close> prints are ASCII.
\<close>

definition print :: "pystr \<Rightarrow> pystr list \<Rightarrow> exn + pystr list" where
  "print s out = (case utf8_encode s of Inl e \<Rightarrow> Inl e | Inr bs \<Rightarrow> Inr (out @ [s]))"

text \<open>
  The loop \<open>for d in diags:\<close>. The state of \<open>main\<close> is the strings printed so far and
  \<open>total_warnings\<close>.
\<close>

fun report :: "(json \<Rightarrow> pystr) \<Rightarrow> pystr \<Rightarrow> json list \<Rightarrow> pystr list \<times> nat
    \<Rightarrow> unit outcome \<times> (pystr list \<times> nat)" where
  "report render filepath [] st = (Returns (), st)"
| "report render filepath (d # ds) (out, n) =
     (case diagnostic_line render filepath d of
        Inl e \<Rightarrow> (Raises e, (out, n))
      | Inr None \<Rightarrow> report render filepath ds (out, n)
      | Inr (Some line) \<Rightarrow>
          (case print line out of
             Inl e \<Rightarrow> (Raises e, (out, n))
           | Inr out' \<Rightarrow> report render filepath ds (out', n + 1)))"

text \<open>
  The loop \<open>for filepath in files:\<close>. \<open>world filepath\<close> is the session that the call of
  \<open>lint_file\<close> for this path meets.
\<close>

fun check_files :: "(json \<Rightarrow> pystr) \<Rightarrow> (pystr \<Rightarrow> session) \<Rightarrow> pystr \<Rightarrow> pystr list
    \<Rightarrow> pystr list \<times> nat \<Rightarrow> unit outcome \<times> (pystr list \<times> nat)" where
  "check_files render world root_dir [] st = (Returns (), st)"
| "check_files render world root_dir (filepath # rest) st =
     (case fst (lint_file (world filepath) filepath root_dir) of
        Raises e \<Rightarrow> (Raises e, st)
      | Hangs \<Rightarrow> (Hangs, st)
      | Returns diags \<Rightarrow>
          and_then (report render filepath diags st) (\<lambda>_ st.
            check_files render world root_dir rest st))"

text \<open>
  \<open>main\<close>: \<open>argv\<close> is \<open>sys.argv[1:]\<close>, \<open>found\<close> what \<open>glob.glob\<close> returns, \<open>cwd\<close> what
  \<open>os.getcwd()\<close> returns. The result is the exit status and the strings printed, one for
  each call of \<open>print\<close>.
\<close>

definition main :: "(json \<Rightarrow> pystr) \<Rightarrow> (pystr \<Rightarrow> session) \<Rightarrow> pystr \<Rightarrow> pystr list \<Rightarrow> pystr list
    \<Rightarrow> int outcome \<times> pystr list" where
  "main render world cwd argv found =
     (let files = (if argv \<noteq> [] then argv else found) in
      if files = [] then (Returns 0, [ascii ''No files to check''])
      else
        (case check_files render world cwd files
                ([ascii ''Checking '' @ decimal (length files) @ ascii '' file(s) with clangd...''], 0) of
           (Returns u, (out, n)) \<Rightarrow>
             (Returns (if n = 0 then 0 else 1),
              out @ [10 # replicate 40 61,
                     ascii ''clangd lint: '' @ decimal n @ ascii '' warning(s)'',
                     replicate 40 61])
         | (Raises e, (out, n)) \<Rightarrow> (Raises e, out)
         | (Hangs, (out, n)) \<Rightarrow> (Hangs, out)))"

text \<open>
  \<open>sys.exit(main())\<close>: the exit status of the process is what \<open>main\<close> returns; an
  exception that leaves \<open>main\<close> ends the interpreter with status 1; a run that blocks
  has no exit status.
\<close>

definition process_status :: "int outcome \<Rightarrow> int option" where
  "process_status r = (case r of
      Returns n \<Rightarrow> Some (n mod 256)
    | Raises e \<Rightarrow> Some 1
    | Hangs \<Rightarrow> None)"

subsection \<open>The specification's reading of a diagnostic\<close>

text \<open>
  The specification describes a diagnostic as a record with a severity (1 Error,
  2 Warning, 3 Information, 4 Hint), a zero-based start position, a message and an
  optional code. The definitions below read these from the decoded JSON value; they
  follow the specification, not \<open>main\<close>, and the theorems compare the two. Where the
  specification expects a number, a JSON boolean is read as Python reads it, \<open>true\<close> as
  1 and \<open>false\<close> as 0.
\<close>

definition field :: "json \<Rightarrow> pystr \<Rightarrow> json option" where
  "field obj key = (case obj of JObj kvs \<Rightarrow> map_of kvs key | _ \<Rightarrow> None)"

definition number :: "json \<Rightarrow> int" where
  "number v = (case v of JInt n \<Rightarrow> n | JBool b \<Rightarrow> (if b then 1 else 0) | _ \<Rightarrow> 0)"

text \<open>The severity; a diagnostic that has none ranks as Error.\<close>

definition severity_of :: "json \<Rightarrow> int" where
  "severity_of d = (case field d (ascii ''severity'') of None \<Rightarrow> 1 | Some s \<Rightarrow> number s)"

definition error_or_warning :: "json \<Rightarrow> bool" where
  "error_or_warning d = (severity_of d = 1 \<or> severity_of d = 2)"

definition information_or_hint :: "json \<Rightarrow> bool" where
  "information_or_hint d = (severity_of d = 3 \<or> severity_of d = 4)"

text \<open>
  The diagnostics \<open>main\<close> reports are those of severity at most 2: Error, Warning, and
  any number below them.
\<close>

definition reported :: "json \<Rightarrow> bool" where
  "reported d = (severity_of d \<le> 2)"

definition position :: "json \<Rightarrow> pystr \<Rightarrow> int" where
  "position d key = (case field d (ascii ''range'') of
      None \<Rightarrow> 0
    | Some r \<Rightarrow> (case field r (ascii ''start'') of
        None \<Rightarrow> 0
      | Some s \<Rightarrow> (case field s key of None \<Rightarrow> 0 | Some n \<Rightarrow> number n)))"

text \<open>
  The text a message or a code stands for in the printed line: a string is its
  characters, a number its decimal digits. The specification names no other kind of
  message or code; for these the text is what Python writes for the value, \<open>None\<close>,
  \<open>True\<close> or \<open>False\<close>, and for a list or a dict what \<open>render\<close> gives.
\<close>

definition text_of :: "(json \<Rightarrow> pystr) \<Rightarrow> json \<Rightarrow> pystr" where
  "text_of render v = (case v of
      JStr s \<Rightarrow> s
    | JInt i \<Rightarrow> str_int i
    | JNull \<Rightarrow> ascii ''None''
    | JBool b \<Rightarrow> (if b then ascii ''True'' else ascii ''False'')
    | _ \<Rightarrow> render v)"

definition message_of :: "json \<Rightarrow> json" where
  "message_of d = (case field d (ascii ''message'') of None \<Rightarrow> JStr [] | Some m \<Rightarrow> m)"

definition code_of :: "json \<Rightarrow> json" where
  "code_of d = (case field d (ascii ''code'') of None \<Rightarrow> JStr [] | Some c \<Rightarrow> c)"

text \<open>\<open><path>:<line>:<col>: warning: <message> [<code>]\<close>, line and column one-based.\<close>

definition spec_line :: "(json \<Rightarrow> pystr) \<Rightarrow> pystr \<Rightarrow> json \<Rightarrow> pystr" where
  "spec_line render path d =
     path @ ascii '':'' @ str_int (position d (ascii ''line'') + 1)
     @ ascii '':'' @ str_int (position d (ascii ''character'') + 1)
     @ ascii '': warning: '' @ text_of render (message_of d)
     @ ascii '' ['' @ text_of render (code_of d) @ ascii '']''"

text \<open>The files \<open>main\<close> works on, and what their sessions return.\<close>

definition chosen :: "pystr list \<Rightarrow> pystr list \<Rightarrow> pystr list" where
  "chosen argv found = (if argv \<noteq> [] then argv else found)"

definition collected :: "(pystr \<Rightarrow> session) \<Rightarrow> pystr \<Rightarrow> pystr \<Rightarrow> json list" where
  "collected world root_dir path =
     (case fst (lint_file (world path) path root_dir) of Returns ds \<Rightarrow> ds | _ \<Rightarrow> [])"

text \<open>
  What is printed for a list of files, and how many lines that is: for each file, in
  order, the lines of its reported diagnostics.
\<close>

definition file_lines :: "(json \<Rightarrow> pystr) \<Rightarrow> (pystr \<Rightarrow> session) \<Rightarrow> pystr \<Rightarrow> pystr \<Rightarrow> pystr list" where
  "file_lines render world root_dir path =
     map (spec_line render path) (filter reported (collected world root_dir path))"

definition all_collected :: "(pystr \<Rightarrow> session) \<Rightarrow> pystr \<Rightarrow> pystr list \<Rightarrow> json list" where
  "all_collected world root_dir paths = concat (map (collected world root_dir) paths)"

definition banner :: "nat \<Rightarrow> pystr list" where
  "banner k = [ascii ''Checking '' @ decimal k @ ascii '' file(s) with clangd...'']"

definition footer :: "nat \<Rightarrow> pystr list" where
  "footer n = [10 # replicate 40 61, ascii ''clangd lint: '' @ decimal n @ ascii '' warning(s)'',
               replicate 40 61]"

subsection \<open>Scripted subprocesses\<close>

text \<open>Messages and sessions the theorems below are evaluated on.\<close>

definition initialize_response :: "int \<Rightarrow> json" where
  "initialize_response msg_id =
     JObj [(ascii ''jsonrpc'', JStr (ascii ''2.0'')), (ascii ''id'', JInt msg_id),
           (ascii ''result'', JObj [])]"

definition publish :: "pystr \<Rightarrow> json list \<Rightarrow> json" where
  "publish uri ds =
     JObj [(ascii ''jsonrpc'', JStr (ascii ''2.0'')), (ascii ''method'', JStr publishDiagnostics),
           (ascii ''params'', JObj [(ascii ''uri'', JStr uri), (ascii ''diagnostics'', JArr ds)])]"

definition diagnostic :: "int \<Rightarrow> int \<Rightarrow> int \<Rightarrow> pystr \<Rightarrow> json" where
  "diagnostic severity line col msg =
     JObj [(ascii ''range'',
              JObj [(ascii ''start'',
                       JObj [(ascii ''line'', JInt line), (ascii ''character'', JInt col)])]),
           (ascii ''severity'', JInt severity), (ascii ''message'', JStr msg)]"


definition scripted :: "event list \<Rightarrow> session" where
  "scripted es = \<lparr>launch = None, pid = 1, resolve = (\<lambda>root path. root @ [47] @ path),
     files = (\<lambda>path. Inr []), clock = 0, script = es, writes_left = None, stdin_log = [],
     proc = \<lparr>state = NotStarted, signals = [], exits_after = Some 0\<rparr>\<rparr>"

definition answering :: "json list \<Rightarrow> pystr \<Rightarrow> session" where
  "answering ds path =
     scripted [Message (initialize_response 1) 10,
               Message (publish (ascii ''file:///r/'' @ path) ds) 10]"

definition no_render :: "json \<Rightarrow> pystr" where
  "no_render x = []"

subsection \<open>ASCII text\<close>

definition is_ascii :: "pystr \<Rightarrow> bool" where
  "is_ascii s = list_all (\<lambda>c. c < 128) s"

text \<open>
  What \<open>line.strip()\<close> leaves of the value in a header line \<open>key: value\<close>: the white
  space at its end goes with the line terminator.
\<close>

definition rstrip :: "pystr \<Rightarrow> pystr" where
  "rstrip s = rev (dropWhile is_space (rev s))"

subsection \<open>Reading a script\<close>

text \<open>
  What a message of the script adds to the diagnostics when the loop reads it: the items
  of a publishDiagnostics notification, whatever its \<open>uri\<close>; nothing otherwise.
\<close>

definition contribution :: "event \<Rightarrow> json list" where
  "contribution e = (case e of
      Message m d \<Rightarrow>
        if truthy m \<and> get m (ascii ''method'') JNull = Inr (JStr publishDiagnostics) then
          (case published m of Inr ds \<Rightarrow> ds | Inl e \<Rightarrow> [])
        else []
    | _ \<Rightarrow> [])"

text \<open>
  The messages the loop takes for the response to \<open>initialize\<close>: a dict with a
  \<open>result\<close> key whose method is not publishDiagnostics. The \<open>id\<close> plays no part.
\<close>

definition accepting :: "event \<Rightarrow> bool" where
  "accepting e = (case e of
      Message m d \<Rightarrow>
        has_key m (ascii ''result'')
        \<and> get m (ascii ''method'') JNull \<noteq> Inr (JStr publishDiagnostics)
    | _ \<Rightarrow> False)"

text \<open>
  A subprocess that never emits output: every call of \<open>read_response\<close> returns
  \<open>None\<close>, after the full slice on an open pipe or at once at end of file.
\<close>

definition silent :: "event \<Rightarrow> bool" where
  "silent e = (case e of Nothing d \<Rightarrow> d \<le> 100 | _ \<Rightarrow> False)"

text \<open>
  \<open>passes_on w r w'\<close>: a run from \<open>w\<close> to \<open>w'\<close> with outcome \<open>r\<close> took events from the
  script, and if a failed read was among them, its exception is the outcome.
\<close>

definition passes_on :: "session \<Rightarrow> 'a outcome \<Rightarrow> session \<Rightarrow> bool" where
  "passes_on w r w' =
     (\<exists>c. script w = c @ script w' \<and> (\<forall>e d. Failure e d \<in> set c \<longrightarrow> r = Raises e))"

text \<open>The bytes of the \<open>initialize\<close> request that \<open>lint_file\<close> writes first.\<close>

definition initialize_frame :: "session \<Rightarrow> pystr \<Rightarrow> bytes" where
  "initialize_frame w root_dir =
     content (dumps (request_message (ascii ''initialize'')
        (JObj [(ascii ''processId'', JInt (pid w)),
               (ascii ''rootUri'', JStr (ascii ''file://'' @ root_dir)),
               (ascii ''capabilities'', JObj [])])
        (JInt 1)))"

text \<open>The locals \<open>lint_file\<close> starts its loop with.\<close>

definition fresh :: locals where
  "fresh = \<lparr>initialized = False, file_opened = False, diagnostics = []\<rparr>"

text \<open>A session whose source file cannot be opened, and a notification that is not a response.\<close>

definition unreadable :: "pystr \<Rightarrow> session" where
  "unreadable path = (answering [] path)\<lparr>files := (\<lambda>p. Inl FileNotFoundError)\<rparr>"

definition log_message :: json where
  "log_message =
     JObj [(ascii ''jsonrpc'', JStr (ascii ''2.0'')), (ascii ''method'', JStr (ascii ''window/logMessage'')),
           (ascii ''params'', JObj [(ascii ''type'', JInt 3), (ascii ''message'', JStr (ascii ''starting''))])]"

text \<open>A \<open>json.loads\<close> that knows two messages and rejects everything else.\<close>

definition loads_only :: "json \<Rightarrow> json \<Rightarrow> pystr \<Rightarrow> exn + json" where
  "loads_only a b body =
     (if body = dumps a then Inr a else if body = dumps b then Inr b else Inl JSONDecodeError)"

definition rejecting :: "pystr \<Rightarrow> exn + json" where
  "rejecting body = Inl JSONDecodeError"

text \<open>
  Subprocesses that fail: one whose header names a length that is not a number, after a
  log message; a clangd that is not installed; and one that has closed its standard
  input.
\<close>

definition bad_header :: stream where
  "bad_header = \<lparr>data = ascii ''Content-Length: abc'' @ [13, 10, 13, 10], closed = False\<rparr>"

definition failing_read :: session where
  "failing_read = scripted [Message log_message 5, event_of rejecting 0 bad_header]"

definition not_installed :: session where
  "not_installed = (scripted [])\<lparr>launch := Some FileNotFoundError\<rparr>"

definition broken_stdin :: session where
  "broken_stdin = (scripted [])\<lparr>writes_left := Some 0\<rparr>"

text \<open>
  Subprocesses that stay silent: one that exits a given time after SIGTERM, and one that
  does not exit on SIGTERM.
\<close>

definition exiting_after :: "nat \<Rightarrow> event list \<Rightarrow> session" where
  "exiting_after d es = (scripted es)\<lparr>proc := (proc (scripted es))\<lparr>exits_after := Some d\<rparr>\<rparr>"

definition ignoring_sigterm :: "event list \<Rightarrow> session" where
  "ignoring_sigterm es = (scripted es)\<lparr>proc := (proc (scripted es))\<lparr>exits_after := None\<rparr>\<rparr>"

text \<open>
  Three files on the command line: the session of \<open>a.cpp\<close> returns a Warning, the
  session of \<open>b.cpp\<close> is the given one, and the session of any other file returns an
  Error.
\<close>

definition batch_with :: "session \<Rightarrow> pystr \<Rightarrow> session" where
  "batch_with b path =
     (if path = ascii ''a.cpp'' then answering [diagnostic 2 4 0 (ascii ''unused'')] path
      else if path = ascii ''b.cpp'' then b
      else answering [diagnostic 1 0 0 (ascii ''broken'')] path)"

definition three_files :: "pystr list" where
  "three_files = [ascii ''a.cpp'', ascii ''b.cpp'', ascii ''c.cpp'']"

section \<open>Framing\<close>

lemma and_then_simps [simp]:
  "and_then (Returns x, s) f = f x s"
  "and_then (Raises e, s) f = (Raises e, s)"
  "and_then (Hangs, s) f = (Hangs, s)"
  "and_then (lift (Inr x) s) f = f x s"
  "and_then (lift (Inl e) s) f = (Raises e, s)"
  by (simp_all add: and_then_def lift_def)

subsection \<open>What json.dumps writes is ASCII\<close>

lemma is_ascii_simps [simp]:
  "is_ascii []" "is_ascii (c # s) = (c < 128 \<and> is_ascii s)"
  "is_ascii (s @ t) = (is_ascii s \<and> is_ascii t)"
  by (simp_all add: is_ascii_def)

lemma is_ascii_concat: "(\<And>s. s \<in> set ss \<Longrightarrow> is_ascii s) \<Longrightarrow> is_ascii (concat ss)"
  by (induction ss) simp_all

lemma decimal_digits: "c \<in> set (decimal n) \<Longrightarrow> 48 \<le> c \<and> c \<le> 57"
proof (induction n rule: decimal.induct)
  case (1 n)
  show ?case
  proof (cases "n < 10")
    case True
    with "1.prems" show ?thesis by (simp add: decimal.simps[of n])
  next
    case False
    with "1.prems" have "c \<in> set (decimal (n div 10)) \<or> c = 48 + n mod 10"
      by (auto simp: decimal.simps[of n])
    then show ?thesis
    proof
      assume "c \<in> set (decimal (n div 10))"
      with "1.IH"[OF False] show ?thesis by simp
    next
      assume "c = 48 + n mod 10"
      moreover have "n mod 10 < 10" by simp
      ultimately show ?thesis by linarith
    qed
  qed
qed

lemma decimal_nonempty: "decimal n \<noteq> []"
  by (simp add: decimal.simps[of n])

lemma is_ascii_decimal [simp]: "is_ascii (decimal n)"
  unfolding is_ascii_def list_all_iff using decimal_digits by fastforce

lemma is_ascii_str_int [simp]: "is_ascii (str_int i)"
  by (simp add: str_int_def)

lemma hex_digit_ascii: "d < 16 \<Longrightarrow> hex_digit d < 128"
  by (simp add: hex_digit_def)

lemma is_ascii_u_escape [simp]: "is_ascii (u_escape n)"
  by (simp add: u_escape_def hex_digit_ascii)

lemma is_ascii_escape_char [simp]: "is_ascii (escape_char c)"
  by (simp add: escape_char_def)

lemma is_ascii_quoted [simp]: "is_ascii (quoted s)"
  by (auto simp: quoted_def intro!: is_ascii_concat)

lemma is_ascii_joined:
  "is_ascii sep \<Longrightarrow> (\<And>s. s \<in> set ss \<Longrightarrow> is_ascii s) \<Longrightarrow> is_ascii (joined sep ss)"
  by (induction sep ss rule: joined.induct) simp_all

lemma is_ascii_literals [simp]:
  "is_ascii (ascii ''null'')" "is_ascii (ascii ''true'')" "is_ascii (ascii ''false'')"
  "is_ascii (ascii '', '')" "is_ascii (ascii '': '')" "is_ascii (ascii ''Content-Length: '')"
  by (simp_all add: ascii_def)

lemma is_ascii_dumps [simp]: "is_ascii (dumps x)"
proof (induction x rule: dumps.induct)
  case (5 xs)
  then show ?case by (auto intro!: is_ascii_joined)
next
  case (6 kvs)
  then show ?case by (auto intro!: is_ascii_joined)
qed simp_all

lemma dumps_nonempty: "dumps x \<noteq> []"
  by (cases x) (simp_all add: ascii_def str_int_def decimal_nonempty quoted_def)

subsection \<open>UTF-8 leaves ASCII text as it is\<close>

lemma utf8_encode_ascii: "is_ascii s \<Longrightarrow> utf8_encode s = Inr s"
  by (induction s) (simp_all add: prepend_def)

lemma utf8_decode_ascii: "is_ascii s \<Longrightarrow> utf8_decode s = Inr s"
  by (induction s) (simp_all add: prepend_def)

lemma is_ascii_content [simp]: "is_ascii msg \<Longrightarrow> is_ascii (content msg)"
  by (simp add: content_def)

subsection \<open>Reading a header block\<close>

lemma takeWhile_all: "\<forall>x \<in> set xs. P x \<Longrightarrow> takeWhile P (xs @ ys) = xs @ takeWhile P ys"
  by (induction xs) auto

lemma dropWhile_all: "\<forall>x \<in> set xs. P x \<Longrightarrow> dropWhile P (xs @ ys) = dropWhile P ys"
  by (induction xs) auto

lemma readline_line:
  assumes "10 \<notin> set a"
  shows "readline \<lparr>data = a @ 10 # b, closed = c\<rparr> = (Returns (a @ [10]), \<lparr>data = b, closed = c\<rparr>)"
proof -
  have t: "takeWhile (\<lambda>b. b \<noteq> 10) (a @ 10 # b) = a"
    using assms by (subst takeWhile_all) auto
  have d: "dropWhile (\<lambda>b. b \<noteq> 10) (a @ 10 # b) = 10 # b"
    using assms by (subst dropWhile_all) auto
  show ?thesis by (simp add: readline_def t d)
qed

lemma strip_line:
  assumes "s \<noteq> []" "\<not> is_space (hd s)" "rstrip v \<noteq> []" "\<forall>c \<in> set t. is_space c"
  shows "strip (s @ v @ t) = s @ rstrip v"
proof -
  from assms(1) obtain x xs where s: "s = x # xs" by (cases s) auto
  with assms(2) have a: "dropWhile is_space (s @ v @ t) = s @ v @ t" by simp
  from assms(3) have "dropWhile is_space (rev v) \<noteq> []" by (simp add: rstrip_def)
  then obtain y where y: "y \<in> set (rev v)" "\<not> is_space y" by (auto simp: dropWhile_eq_Nil_conv)
  have "dropWhile is_space (rev t @ (rev v @ rev s)) = dropWhile is_space (rev v @ rev s)"
    using assms(4) by (subst dropWhile_all) auto
  also have "\<dots> = dropWhile is_space (rev v) @ rev s"
    using y by (rule dropWhile_append1)
  finally have "dropWhile is_space (rev (s @ v @ t)) = dropWhile is_space (rev v) @ rev s"
    by simp
  then have "rev (dropWhile is_space (rev (s @ v @ t))) = s @ rstrip v"
    by (simp add: rstrip_def)
  with a show ?thesis by (simp add: strip_def)
qed

lemma rstrip_same: "s \<noteq> [] \<Longrightarrow> \<not> is_space (last s) \<Longrightarrow> rstrip s = s"
  by (cases s rule: rev_cases) (simp_all add: rstrip_def)

lemma split_once_header:
  "split_once (ascii '': '') (ascii ''Content-Length: '' @ v) = Some (ascii ''Content-Length'', v)"
  by (simp add: ascii_def)

lemma read_headers_blank:
  "read_headers headers \<lparr>data = 13 # 10 # rest, closed = c\<rparr>
     = (Returns headers, \<lparr>data = rest, closed = c\<rparr>)"
proof -
  have r: "readline \<lparr>data = [13] @ 10 # rest, closed = c\<rparr>
      = (Returns ([13] @ [10]), \<lparr>data = rest, closed = c\<rparr>)"
    by (rule readline_line) simp
  have s: "strip [13, 10] = []" by (simp add: strip_def is_space_def)
  show ?thesis
    using r by (simp add: read_headers.simps[of headers "\<lparr>data = 13 # 10 # rest, closed = c\<rparr>"]
        prepend_def s)
qed

text \<open>
  A header block of the one line \<open>Content-Length: v\<close> and the empty line, where \<open>v\<close> is
  ASCII text without a line feed and is not blank.
\<close>

lemma read_headers_content_length:
  assumes "is_ascii v" "10 \<notin> set v" "rstrip v \<noteq> []"
  shows "read_headers Map.empty
           \<lparr>data = ascii ''Content-Length: '' @ v @ 13 # 10 # 13 # 10 # rest, closed = c\<rparr>
     = (Returns [ascii ''Content-Length'' \<mapsto> rstrip v], \<lparr>data = rest, closed = c\<rparr>)"
proof -
  let ?h = "ascii ''Content-Length: ''"
  let ?s = "\<lparr>data = ?h @ v @ 13 # 10 # 13 # 10 # rest, closed = c\<rparr>"
  have n: "10 \<notin> set (?h @ v @ [13])" using assms(2) by (simp add: ascii_def)
  have "readline \<lparr>data = (?h @ v @ [13]) @ 10 # (13 # 10 # rest), closed = c\<rparr>
      = (Returns ((?h @ v @ [13]) @ [10]), \<lparr>data = 13 # 10 # rest, closed = c\<rparr>)"
    by (rule readline_line[OF n])
  then have r: "readline ?s = (Returns (?h @ v @ [13, 10]), \<lparr>data = 13 # 10 # rest, closed = c\<rparr>)"
    by simp
  have d: "utf8_decode (?h @ v @ [13, 10]) = Inr (?h @ v @ [13, 10])"
    using assms(1) by (intro utf8_decode_ascii) simp
  have st: "strip (?h @ v @ [13, 10]) = ?h @ rstrip v"
    using assms(3) by (intro strip_line) (simp_all add: ascii_def is_space_def)
  have ne: "?h @ rstrip v \<noteq> []" using assms(3) by simp
  have "read_headers Map.empty ?s
      = read_headers [ascii ''Content-Length'' \<mapsto> rstrip v] \<lparr>data = 13 # 10 # rest, closed = c\<rparr>"
    by (subst read_headers.simps) (simp add: r d st assms(3) split_once_header)
  then show ?thesis by (simp add: read_headers_blank)
qed

subsection \<open>int of what str wrote\<close>

lemma digits_val_digits:
  "\<forall>c \<in> set ds. 48 \<le> c \<and> c \<le> 57 \<Longrightarrow>
     digits_val acc ds = Some (foldl (\<lambda>a c. 10 * a + (c - 48)) acc ds)"
proof (induction ds arbitrary: acc)
  case Nil
  then show ?case by simp
next
  case (Cons c ds)
  then have dv: "digit_val c = Some (c - 48)" and c: "c \<noteq> 95"
    by (auto simp: digit_val_def)
  show ?case
  proof (cases ds)
    case Nil
    then show ?thesis by (simp add: dv)
  next
    case (Cons d ds')
    have "digits_val acc (c # d # ds') = digits_val (10 * acc + (c - 48)) (d # ds')"
      using c by (simp only: digits_val.simps dv option.case if_False)
    moreover have "digits_val (10 * acc + (c - 48)) ds
        = Some (foldl (\<lambda>a c. 10 * a + (c - 48)) (10 * acc + (c - 48)) ds)"
      using Cons.prems by (intro Cons.IH) simp
    ultimately show ?thesis using Cons by (simp only: foldl_Cons)
  qed
qed

lemma foldl_decimal: "foldl (\<lambda>a c. 10 * a + (c - 48)) 0 (decimal n) = n"
proof (induction n rule: decimal.induct)
  case (1 n)
  show ?case
  proof (cases "n < 10")
    case True
    then show ?thesis by (simp add: decimal.simps[of n])
  next
    case False
    with "1.IH" show ?thesis by (simp add: decimal.simps[of n])
  qed
qed

lemma py_nat_decimal: "py_nat (decimal n) = Some n"
proof -
  obtain c cs where d: "decimal n = c # cs" using decimal_nonempty[of n] by (cases "decimal n") auto
  have all: "\<forall>x \<in> set (c # cs). 48 \<le> x \<and> x \<le> 57" using decimal_digits[of _ n] d by auto
  then have dv: "digit_val c = Some (c - 48)" by (simp add: digit_val_def)
  have "digits_val (c - 48) cs = Some (foldl (\<lambda>a c. 10 * a + (c - 48)) (c - 48) cs)"
    using all by (intro digits_val_digits) simp
  moreover have "foldl (\<lambda>a c. 10 * a + (c - 48)) (c - 48) cs = n"
    using foldl_decimal[of n] unfolding d by simp
  ultimately show ?thesis by (simp add: py_nat_def d dv)
qed

lemma digit_not_space: "48 \<le> c \<Longrightarrow> c \<le> 57 \<Longrightarrow> \<not> is_space c"
  by (simp add: is_space_def)

lemma decimal_ends:
  "\<not> is_space (hd (decimal n))" "\<not> is_space (last (decimal n))" "10 \<notin> set (decimal n)"
proof -
  have "hd (decimal n) \<in> set (decimal n)" "last (decimal n) \<in> set (decimal n)"
    using decimal_nonempty[of n] by simp_all
  then show "\<not> is_space (hd (decimal n))" "\<not> is_space (last (decimal n))"
    using decimal_digits digit_not_space by blast+
  show "10 \<notin> set (decimal n)" using decimal_digits[of 10 n] by auto
qed

lemma rstrip_decimal: "rstrip (decimal n) = decimal n"
  by (intro rstrip_same decimal_nonempty decimal_ends)

lemma digit_not_c_space: "48 \<le> c \<Longrightarrow> c \<le> 57 \<Longrightarrow> \<not> is_c_space c"
  by (simp add: is_c_space_def)

lemma py_int_decimal: "py_int (decimal n) = Some (int n)"
proof -
  obtain c cs where d: "decimal n = c # cs" using decimal_nonempty[of n] by (cases "decimal n") auto
  have c: "48 \<le> c \<and> c \<le> 57" using decimal_digits[of c n] d by simp
  then have a: "dropWhile is_c_space (decimal n) = decimal n"
    using d digit_not_c_space by simp
  obtain ys y where e: "decimal n = ys @ [y]"
    using decimal_nonempty[of n] by (cases "decimal n" rule: rev_cases) auto
  have "48 \<le> y \<and> y \<le> 57" using decimal_digits[of y n] e by simp
  then have b: "dropWhile is_c_space (rev (decimal n)) = rev (decimal n)"
    using e digit_not_c_space by simp
  have "c \<noteq> 45" "c \<noteq> 43" using c by auto
  then show ?thesis
    using py_nat_decimal[of n] by (simp add: py_int_def a b d[symmetric]) (simp add: d)
qed

text \<open>\<open>int\<close> reads back the number that \<open>str\<close> wrote.\<close>

lemma py_int_str_int: "py_int (str_int i) = Some i"
proof (cases "i < 0")
  case False
  with py_int_decimal[of "nat i"] show ?thesis by (simp add: str_int_def)
next
  case True
  let ?n = "nat (- i)"
  obtain ys y where e: "decimal ?n = ys @ [y]"
    using decimal_nonempty[of ?n] by (cases "decimal ?n" rule: rev_cases) auto
  have "48 \<le> y \<and> y \<le> 57" using decimal_digits[of y ?n] e by simp
  then have b: "dropWhile is_c_space (rev (45 # decimal ?n)) = rev (45 # decimal ?n)"
    using e digit_not_c_space by simp
  have a: "dropWhile is_c_space (45 # decimal ?n) = 45 # decimal ?n"
    by (simp add: is_c_space_def)
  have "py_int (45 # decimal ?n) = Some (- int ?n)"
    unfolding py_int_def a b by (simp add: py_nat_decimal)
  with True show ?thesis by (simp add: str_int_def)
qed

lemma read_exact:
  "read (int (length msg)) \<lparr>data = msg @ rest, closed = c\<rparr>
     = (Returns msg, \<lparr>data = rest, closed = c\<rparr>)"
  by (simp add: read_def)

subsection \<open>Decoding what was encoded\<close>

lemma read_response_content:
  assumes "is_ascii msg" "msg \<noteq> []"
  shows "read_response loads \<lparr>data = content msg @ rest, closed = c\<rparr>
     = (case loads msg of
          Inl e \<Rightarrow> (Raises e, \<lparr>data = rest, closed = c\<rparr>)
        | Inr m \<Rightarrow> (Returns (Some m), \<lparr>data = rest, closed = c\<rparr>))"
proof -
  let ?v = "decimal (length msg)"
  have "read_headers Map.empty
           \<lparr>data = ascii ''Content-Length: '' @ ?v @ 13 # 10 # 13 # 10 # msg @ rest, closed = c\<rparr>
     = (Returns [ascii ''Content-Length'' \<mapsto> rstrip ?v], \<lparr>data = msg @ rest, closed = c\<rparr>)"
    by (intro read_headers_content_length decimal_ends)
       (simp_all add: rstrip_decimal decimal_nonempty)
  then have h: "read_headers Map.empty
           \<lparr>data = ascii ''Content-Length: '' @ ?v @ 13 # 10 # 13 # 10 # msg @ rest, closed = c\<rparr>
     = (Returns [ascii ''Content-Length'' \<mapsto> ?v], \<lparr>data = msg @ rest, closed = c\<rparr>)"
    by (simp add: rstrip_decimal)
  have rdy: "ready \<lparr>data = content msg @ rest, closed = c\<rparr>"
    by (simp add: ready_def content_def ascii_def)
  have len: "int (length msg) \<noteq> 0" using assms(2) by simp
  show ?thesis
    using h rdy len
    by (simp add: read_response_def content_def py_int_decimal read_exact
        utf8_decode_ascii[OF assms(1)] lift_def and_then_def split: sum.splits)
qed

lemma read_response_not_numeric:
  assumes "is_ascii v" "10 \<notin> set v" "rstrip v \<noteq> []" "py_int (rstrip v) = None"
  shows "read_response loads
           \<lparr>data = ascii ''Content-Length: '' @ v @ 13 # 10 # 13 # 10 # rest, closed = c\<rparr>
     = (Raises ValueError, \<lparr>data = rest, closed = c\<rparr>)"
proof -
  have rdy: "ready \<lparr>data = ascii ''Content-Length: '' @ v @ 13 # 10 # 13 # 10 # rest, closed = c\<rparr>"
    by (simp add: ready_def ascii_def)
  show ?thesis
    using rdy read_headers_content_length[OF assms(1-3), of rest c] assms(4)
    by (simp add: read_response_def)
qed

section \<open>The session\<close>

lemma next_response_frame:
  "next_response t w = (r, w') \<Longrightarrow>
     proc w' = proc w \<and> stdin_log w' = stdin_log w \<and> clock w \<le> clock w'"
  by (auto simp: next_response_def split: list.splits event.splits)

lemma next_response_none:
  "next_response t w = (Returns None, w') \<Longrightarrow>
     \<exists>c. script w = c @ script w' \<and> length c \<le> 1 \<and> concat (map contribution c) = []
         \<and> (\<forall>e \<in> set c. \<not> accepting e)"
  by (auto simp: next_response_def contribution_def accepting_def split: list.splits event.splits)

lemma next_response_stopped:
  "next_response t w = (r, w') \<Longrightarrow> stopped_as r r' \<Longrightarrow>
     \<exists>c. script w = c @ script w' \<and> length c \<le> 1 \<and> (\<forall>e \<in> set c. \<not> accepting e)"
  by (auto simp: next_response_def accepting_def stopped_as_def split: list.splits event.splits)

lemma next_response_some:
  "next_response t w = (Returns (Some m), w') \<Longrightarrow> \<exists>d. script w = Message m d # script w'"
  by (auto simp: next_response_def split: list.splits event.splits)

text \<open>
  What the inner loop does to the session, and what it returns: the diagnostics it was
  given, then those of the messages it took from the script.
\<close>

lemma drain_effect:
  "drain diags w = (r, w') \<Longrightarrow>
     proc w' = proc w \<and> stdin_log w' = stdin_log w \<and> clock w \<le> clock w'
     \<and> (\<exists>c. script w = c @ script w'
           \<and> (\<forall>ds. r = Returns ds \<longrightarrow> ds = diags @ concat (map contribution c)))"
proof (induction diags w rule: drain.induct)
  case (1 diags w)
  obtain r1 w1 where n: "next_response 100 w = (r1, w1)" by (cases "next_response 100 w")
  note f = next_response_frame[OF n]
  show ?case
  proof (cases r1)
    case (Returns resp)
    show ?thesis
    proof (cases resp)
      case None
      with 1(3) n Returns have "r = Returns diags" "w' = w1" by (simp_all add: drain.simps[of diags w])
      with f next_response_none[OF n[unfolded Returns None]] show ?thesis by auto
    next
      case (Some m)
      from next_response_some[OF n[unfolded Returns Some]] obtain d
        where sc: "script w = Message m d # script w1" by auto
      show ?thesis
      proof (cases "truthy m")
        case False
        with 1(3) n Returns Some have "r = Returns diags" "w' = w1"
          by (simp_all add: drain.simps[of diags w])
        moreover have "concat (map contribution [Message m d]) = []"
          using False by (simp add: contribution_def)
        ultimately show ?thesis using f sc by (intro conjI exI[of _ "[Message m d]"]) auto
      next
        case True
        show ?thesis
        proof (cases "get m (ascii ''method'') JNull")
          case (Inl e)
          with 1(3) n Returns Some True have "r = Raises e" "w' = w1"
            by (simp_all add: drain.simps[of diags w])
          then show ?thesis using f sc by (intro conjI exI[of _ "[Message m d]"]) auto
        next
          case (Inr v)
          show ?thesis
          proof (cases "v = JStr publishDiagnostics")
            case pd: True
            show ?thesis
            proof (cases "published m")
              case (Inl e)
              with 1(3) n Returns Some True Inr pd have "r = Raises e" "w' = w1"
                by (simp_all add: drain.simps[of diags w])
              then show ?thesis using f sc by (intro conjI exI[of _ "[Message m d]"]) auto
            next
              case ds: (Inr ds)
              from 1(3) n Returns Some True Inr pd ds
              have "drain (diags @ ds) w1 = (r, w')" by (simp add: drain.simps[of diags w])
              from 1(1)[OF n[symmetric] Returns Some True Inr pd ds this]
              obtain c where a: "proc w' = proc w1" "stdin_log w' = stdin_log w1"
                "clock w1 \<le> clock w'" "script w1 = c @ script w'"
                "\<forall>xs. r = Returns xs \<longrightarrow> xs = (diags @ ds) @ concat (map contribution c)"
                by auto
              have "contribution (Message m d) = ds"
                using True Inr pd ds by (simp add: contribution_def)
              then show ?thesis using a f sc
                by (intro conjI exI[of _ "Message m d # c"]) auto
            qed
          next
            case npd: False
            from 1(3) n Returns Some True Inr npd
            have "drain diags w1 = (r, w')" by (simp add: drain.simps[of diags w])
            from 1(2)[OF n[symmetric] Returns Some True Inr npd this]
            obtain c where a: "proc w' = proc w1" "stdin_log w' = stdin_log w1"
              "clock w1 \<le> clock w'" "script w1 = c @ script w'"
              "\<forall>xs. r = Returns xs \<longrightarrow> xs = diags @ concat (map contribution c)"
              by auto
            have "contribution (Message m d) = []"
              using True Inr npd by (simp add: contribution_def)
            then show ?thesis using a f sc
              by (intro conjI exI[of _ "Message m d # c"]) auto
          qed
        qed
      qed
    qed
  next
    case (Raises e)
    with 1(3) n have e: "r = Raises e" "w' = w1" by (simp_all add: drain.simps[of diags w])
    have "stopped_as r1 r" using Raises e by (simp add: stopped_as_def)
    from next_response_stopped[OF n this] e f show ?thesis by auto
  next
    case Hangs
    with 1(3) n have e: "r = Hangs" "w' = w1" by (simp_all add: drain.simps[of diags w])
    have "stopped_as r1 r" using Hangs e by (simp add: stopped_as_def)
    from next_response_stopped[OF n this] e f show ?thesis by auto
  qed
qed

text \<open>What handling one response does to the locals and to the session.\<close>

lemma handle_response_effect:
  assumes "handle_response m st w = (r, w')" and "truthy m"
  shows "script w' = script w \<and> clock w' = clock w \<and> proc w' = proc w
     \<and> (\<not> accepting (Message m d) \<or> initialized st \<longrightarrow> stdin_log w' = stdin_log w)
     \<and> (\<forall>st'. r = Returns st' \<longrightarrow>
           file_opened st' = file_opened st
           \<and> diagnostics st' = diagnostics st @ contribution (Message m d)
           \<and> (initialized st' \<longrightarrow> initialized st \<or> accepting (Message m d)))"
proof (cases "get m (ascii ''method'') JNull")
  case (Inl e)
  with assms(1) have "r = Raises e" "w' = w"
    by (simp_all add: handle_response_def)
  then show ?thesis by simp
next
  case (Inr v)
  show ?thesis
  proof (cases "v = JStr publishDiagnostics")
    case True
    have c: "contribution (Message m d) = (case published m of Inr ds \<Rightarrow> ds | Inl e \<Rightarrow> [])"
      using assms(2) Inr True by (simp add: contribution_def)
    show ?thesis
    proof (cases "published m")
      case (Inl e)
      with assms(1) Inr True have "r = Raises e" "w' = w"
        by (simp_all add: handle_response_def)
      then show ?thesis by simp
    next
      case ds: (Inr ds)
      with assms(1) Inr True
      have "r = Returns (st\<lparr>diagnostics := diagnostics st @ ds\<rparr>)" "w' = w"
        by (simp_all add: handle_response_def)
      then show ?thesis using c ds by simp
    qed
  next
    case False
    have c: "contribution (Message m d) = []"
      using Inr False by (simp add: contribution_def)
    have a: "accepting (Message m d) = has_key m (ascii ''result'')"
      using Inr False by (simp add: accepting_def)
    show ?thesis
    proof (cases "has_key m (ascii ''result'') \<and> \<not> initialized st")
      case no: False
      with assms(1) Inr False have "r = Returns st" "w' = w"
        by (simp_all add: handle_response_def)
      then show ?thesis using c a no by auto
    next
      case yes: True
      obtain r1 w1 where s: "send_notification w (ascii ''initialized'') (JObj []) = (r1, w1)"
        by (cases "send_notification w (ascii ''initialized'') (JObj [])")
      from assms(1) Inr False yes s
      have h: "and_then (r1, w1) (\<lambda>_ w. (Returns (st\<lparr>initialized := True\<rparr>), w)) = (r, w')"
        by (simp add: handle_response_def)
      then have w: "w' = w1" by (cases r1) simp_all
      from h have st: "\<forall>st'. r = Returns st' \<longrightarrow> st' = st\<lparr>initialized := True\<rparr>"
        by (cases r1) auto
      have p1: "script w' = script w \<and> clock w' = clock w \<and> proc w' = proc w"
        using send_notification_frame[OF s] w by simp
      have p2: "\<not> (\<not> accepting (Message m d) \<or> initialized st)" using a yes by simp
      have p3: "\<forall>st'. r = Returns st' \<longrightarrow>
           file_opened st' = file_opened st
           \<and> diagnostics st' = diagnostics st @ contribution (Message m d)
           \<and> (initialized st' \<longrightarrow> initialized st \<or> accepting (Message m d))"
      proof (intro allI impI)
        fix st' assume "r = Returns st'"
        with st have "st' = st\<lparr>initialized := True\<rparr>" by simp
        then show "file_opened st' = file_opened st
           \<and> diagnostics st' = diagnostics st @ contribution (Message m d)
           \<and> (initialized st' \<longrightarrow> initialized st \<or> accepting (Message m d))"
          using c a yes by simp
      qed
      show ?thesis using p1 p2 p3 by blast
    qed
  qed
qed

lemma receive_effect:
  assumes "receive st w = (r, w')"
  shows "proc w' = proc w \<and> clock w \<le> clock w'
     \<and> (\<exists>c. script w = c @ script w' \<and> length c \<le> 1
           \<and> ((\<forall>e \<in> set c. \<not> accepting e) \<or> initialized st \<longrightarrow> stdin_log w' = stdin_log w)
           \<and> (\<forall>st'. r = Returns st' \<longrightarrow>
                 file_opened st' = file_opened st
                 \<and> diagnostics st' = diagnostics st @ concat (map contribution c)
                 \<and> (initialized st' \<longrightarrow> initialized st \<or> (\<exists>e \<in> set c. accepting e))))"
proof -
  from assms have "and_then (next_response 100 w) (\<lambda>resp w.
       case resp of
         None \<Rightarrow> (Returns st, w)
       | Some r \<Rightarrow> if truthy r then handle_response r st w else (Returns st, w)) = (r, w')"
    by (simp add: receive_def)
  then show ?thesis
  proof (rule and_then_cases)
    fix resp w1
    assume n: "next_response 100 w = (Returns resp, w1)"
      and h: "(case resp of
         None \<Rightarrow> (Returns st, w1)
       | Some r \<Rightarrow> if truthy r then handle_response r st w1 else (Returns st, w1)) = (r, w')"
    note f = next_response_frame[OF n]
    show ?thesis
    proof (cases resp)
      case None
      with h have "r = Returns st" "w' = w1" by simp_all
      with f next_response_none[OF n[unfolded None]] show ?thesis by auto
    next
      case (Some m)
      from next_response_some[OF n[unfolded Some]] obtain d
        where sc: "script w = Message m d # script w1" by auto
      show ?thesis
      proof (cases "truthy m")
        case False
        with h Some have e: "r = Returns st" "w' = w1" by simp_all
        have "contribution (Message m d) = []" using False by (simp add: contribution_def)
        moreover have "\<not> accepting (Message m d)"
          using False by (cases m) (auto simp: accepting_def has_key_def)
        ultimately show ?thesis using e f sc
          by (intro conjI exI[of _ "[Message m d]"]) auto
      next
        case True
        with h Some have "handle_response m st w1 = (r, w')" by simp
        from handle_response_effect[OF this True, of d] f sc show ?thesis
          by (intro conjI exI[of _ "[Message m d]"]) auto
      qed
    qed
  next
    fix r0
    assume n: "next_response 100 w = (r0, w')" and s: "stopped_as r0 r"
    from next_response_frame[OF n] next_response_stopped[OF n s] s show ?thesis
      by (auto simp: stopped_as_def split: outcome.splits)
  qed
qed

lemma announce_effect:
  assumes "announce p st w = (r, w')"
  shows "script w' = script w \<and> clock w' = clock w \<and> proc w' = proc w
     \<and> (\<not> initialized st \<or> file_opened st \<longrightarrow> w' = w \<and> r = Returns st)
     \<and> (\<forall>st'. r = Returns st' \<longrightarrow>
           diagnostics st' = diagnostics st \<and> initialized st' = initialized st
           \<and> (file_opened st' \<longrightarrow> file_opened st \<or> initialized st))"
proof (cases "initialized st \<and> \<not> file_opened st")
  case False
  with assms show ?thesis by (auto simp: announce_def)
next
  case True
  with assms have od: "open_document p st w = (r, w')" by (simp add: announce_def)
  have st: "\<forall>st'. r = Returns st' \<longrightarrow> st' = st\<lparr>file_opened := True\<rparr>"
    using od
    by (auto simp: open_document_def and_then_def lift_def
        split: sum.splits prod.splits outcome.splits)
  have p3: "\<forall>st'. r = Returns st' \<longrightarrow>
           diagnostics st' = diagnostics st \<and> initialized st' = initialized st
           \<and> (file_opened st' \<longrightarrow> file_opened st \<or> initialized st)"
  proof (intro allI impI)
    fix st' assume "r = Returns st'"
    with st have "st' = st\<lparr>file_opened := True\<rparr>" by simp
    then show "diagnostics st' = diagnostics st \<and> initialized st' = initialized st
           \<and> (file_opened st' \<longrightarrow> file_opened st \<or> initialized st)"
      using True by simp
  qed
  have p2: "\<not> (\<not> initialized st \<or> file_opened st)" using True by simp
  show ?thesis using open_document_frame[OF od] p2 p3 by blast
qed

lemma settle_effect:
  assumes "settle st w = (r, w')"
  shows "proc w' = proc w \<and> stdin_log w' = stdin_log w \<and> clock w \<le> clock w'
     \<and> (\<not> file_opened st \<or> diagnostics st = [] \<longrightarrow> w' = w \<and> r = Returns (False, st))
     \<and> (\<exists>c. script w = c @ script w'
           \<and> (\<forall>b st'. r = Returns (b, st') \<longrightarrow>
                 diagnostics st' = diagnostics st @ concat (map contribution c)
                 \<and> initialized st' = initialized st \<and> file_opened st' = file_opened st))"
proof (cases "file_opened st \<and> diagnostics st \<noteq> []")
  case False
  with assms show ?thesis by (auto simp: settle_def)
next
  case True
  obtain r1 w1 where d: "drain (diagnostics st) (sleep 200 w) = (r1, w1)"
    by (cases "drain (diagnostics st) (sleep 200 w)")
  from drain_effect[OF d] obtain c where c: "proc w1 = proc w" "stdin_log w1 = stdin_log w"
    "clock w \<le> clock w1" "script w = c @ script w1"
    "\<forall>ds. r1 = Returns ds \<longrightarrow> ds = diagnostics st @ concat (map contribution c)"
    by (auto simp: sleep_def)
  from assms True d have w: "w' = w1"
    by (cases r1) (auto simp: settle_def and_then_def)
  from assms True d have "\<forall>b st'. r = Returns (b, st') \<longrightarrow>
      (\<exists>ds. r1 = Returns ds \<and> st' = st\<lparr>diagnostics := ds\<rparr>)"
    by (cases r1) (auto simp: settle_def and_then_def)
  with c w True show ?thesis by (intro conjI exI[of _ c]) auto
qed

text \<open>
  The runs of the polling loop, as a rule of induction: the deadline has passed; a pass
  raised or blocked; a pass ended in \<open>break\<close>; or a pass went through and the loop goes on.
\<close>

lemma poll_loop_runs:
  assumes run: "poll_loop p start st w = (r, w')"
    and deadline: "\<And>st w. \<not> clock w - start < 5000 \<Longrightarrow> Q st w (Returns (diagnostics st)) w"
    and stop: "\<And>st w r1 w1 r. clock w - start < 5000 \<Longrightarrow> iteration p st w = (r1, w1)
        \<Longrightarrow> stopped_as r1 r \<Longrightarrow> Q st w r w1"
    and break: "\<And>st w st1 w1. clock w - start < 5000
        \<Longrightarrow> iteration p st w = (Returns (True, st1), w1)
        \<Longrightarrow> Q st w (Returns (diagnostics st1)) w1"
    and step: "\<And>st w st1 w1 r w'. clock w - start < 5000
        \<Longrightarrow> iteration p st w = (Returns (False, st1), w1)
        \<Longrightarrow> poll_loop p start st1 w1 = (r, w')
        \<Longrightarrow> Q st1 w1 r w' \<Longrightarrow> Q st w r w'"
  shows "Q st w r w'"
  using assms
proof (induction p start st w rule: poll_loop.induct)
  case (1 p start st w)
  show ?case
  proof (cases "clock w - start < 5000")
    case False
    with "1.prems"(1) have "r = Returns (diagnostics st)" "w' = w"
      by (simp_all add: poll_loop.simps[of p start st w])
    with "1.prems"(2)[OF False] show ?thesis by simp
  next
    case True
    obtain r1 w1 where it: "iteration p st w = (r1, w1)" by (cases "iteration p st w")
    show ?thesis
    proof (cases r1)
      case (Returns x)
      obtain b st1 where x: "x = (b, st1)" by (cases x)
      show ?thesis
      proof (cases b)
        case True
        with "1.prems"(1) \<open>clock w - start < 5000\<close> it Returns x
        have "r = Returns (diagnostics st1)" "w' = w1"
          by (simp_all add: poll_loop.simps[of p start st w])
        moreover have "iteration p st w = (Returns (True, st1), w1)"
          using it Returns x True by simp
        note "1.prems"(4)[OF \<open>clock w - start < 5000\<close> this]
        ultimately show ?thesis by simp
      next
        case False
        with "1.prems"(1) True it Returns x
        have rec: "poll_loop p start st1 w1 = (r, w')"
          by (simp add: poll_loop.simps[of p start st w])
        have bf: "b = False" using False by simp
        have "Q st1 w1 r w'"
          by (rule "1.IH"[OF True it[symmetric] Returns x[symmetric] bf rec "1.prems"(2-5)])
        moreover have "iteration p st w = (Returns (False, st1), w1)"
          using it Returns x False by simp
        note "1.prems"(5)[OF True this rec]
        ultimately show ?thesis by simp
      qed
    next
      case (Raises e)
      with "1.prems"(1) True it have e: "r = Raises e" "w' = w1"
        by (simp_all add: poll_loop.simps[of p start st w])
      have "stopped_as r1 r" using Raises e by (simp add: stopped_as_def)
      from "1.prems"(3)[OF True it this] e show ?thesis by simp
    next
      case Hangs
      with "1.prems"(1) True it have e: "r = Hangs" "w' = w1"
        by (simp_all add: poll_loop.simps[of p start st w])
      have "stopped_as r1 r" using Hangs e by (simp add: stopped_as_def)
      from "1.prems"(3)[OF True it this] e show ?thesis by simp
    qed
  qed
qed

lemma iteration_effect:
  assumes "iteration p st w = (r, w')"
  shows "proc w' = proc w \<and> clock w \<le> clock w'
     \<and> (\<exists>c. script w = c @ script w'
           \<and> (\<forall>b st'. r = Returns (b, st') \<longrightarrow>
                 diagnostics st' = diagnostics st @ concat (map contribution c)))"
  using assms
proof (rule iteration_cases)
  fix r0
  assume a: "receive st w = (r0, w')" "stopped_as r0 r"
  from receive_effect[OF a(1)] obtain c1 where c1: "proc w' = proc w" "clock w \<le> clock w'"
    "script w = c1 @ script w'" by blast
  have nr: "\<forall>b st'. r \<noteq> Returns (b, st')" using a(2) by auto
  show ?thesis using c1 nr by (intro conjI exI[of _ c1]) simp_all
next
  fix st1 w1 r0
  assume a: "receive st w = (Returns st1, w1)" "announce p st1 w1 = (r0, w')" "stopped_as r0 r"
  from receive_effect[OF a(1)] obtain c1 where c1: "proc w1 = proc w" "clock w \<le> clock w1"
    "script w = c1 @ script w1" by blast
  from announce_effect[OF a(2)] have an: "script w' = script w1" "clock w' = clock w1"
    "proc w' = proc w1" by blast+
  have nr: "\<forall>b st'. r \<noteq> Returns (b, st')" using a(3) by auto
  show ?thesis using c1 an nr by (intro conjI exI[of _ c1]) simp_all
next
  fix st1 w1 st2 w2
  assume a: "receive st w = (Returns st1, w1)" "announce p st1 w1 = (Returns st2, w2)"
    "settle st2 w2 = (r, w')"
  from receive_effect[OF a(1)] obtain c1 where c1: "proc w1 = proc w" "clock w \<le> clock w1"
    "script w = c1 @ script w1" "diagnostics st1 = diagnostics st @ concat (map contribution c1)"
    by blast
  from announce_effect[OF a(2)] have an: "script w2 = script w1" "clock w2 = clock w1"
    "proc w2 = proc w1" "diagnostics st2 = diagnostics st1" by blast+
  from settle_effect[OF a(3)] obtain c2 where c2: "proc w' = proc w2" "clock w2 \<le> clock w'"
    "script w2 = c2 @ script w'"
    "\<forall>b st'. r = Returns (b, st') \<longrightarrow> diagnostics st' = diagnostics st2 @ concat (map contribution c2)"
    by blast
  have "script w = (c1 @ c2) @ script w'" using c1(3) an(1) c2(3) by simp
  moreover have "\<forall>b st'. r = Returns (b, st') \<longrightarrow>
      diagnostics st' = diagnostics st @ concat (map contribution (c1 @ c2))"
    using c2(4) an(4) c1(4) by simp
  moreover have "proc w' = proc w" "clock w \<le> clock w'" using c1 an c2 by simp_all
  ultimately show ?thesis by blast
qed

text \<open>
  A pass of a session that is not initialized, reading an event that is not taken for
  the response, writes nothing and leaves the session as it was.
\<close>

lemma iteration_uninitialized:
  assumes "iteration p st w = (r, w')" "\<not> initialized st" "\<not> file_opened st"
    and "\<forall>e \<in> set (take 1 (script w)). \<not> accepting e"
  shows "stdin_log w' = stdin_log w
     \<and> (\<forall>b st'. r = Returns (b, st') \<longrightarrow> \<not> b \<and> \<not> initialized st' \<and> \<not> file_opened st')"
proof -
  have rec: "\<And>r1 w1. receive st w = (r1, w1) \<Longrightarrow> stdin_log w1 = stdin_log w
      \<and> (\<forall>st1. r1 = Returns st1 \<longrightarrow> \<not> initialized st1 \<and> \<not> file_opened st1)"
  proof -
    fix r1 w1 assume "receive st w = (r1, w1)"
    from receive_effect[OF this] obtain c where c: "script w = c @ script w1" "length c \<le> 1"
      "(\<forall>e \<in> set c. \<not> accepting e) \<or> initialized st \<longrightarrow> stdin_log w1 = stdin_log w"
      "\<forall>st'. r1 = Returns st' \<longrightarrow> file_opened st' = file_opened st
          \<and> (initialized st' \<longrightarrow> initialized st \<or> (\<exists>e \<in> set c. accepting e))"
      by blast
    have "set c \<subseteq> set (take 1 (script w))" using c(1,2) by (cases c) auto
    with assms(4) have "\<forall>e \<in> set c. \<not> accepting e" by blast
    with c assms(2,3) show "stdin_log w1 = stdin_log w
      \<and> (\<forall>st1. r1 = Returns st1 \<longrightarrow> \<not> initialized st1 \<and> \<not> file_opened st1)" by blast
  qed
  from assms(1) show ?thesis
  proof (rule iteration_cases)
    fix r0
    assume a: "receive st w = (r0, w')" "stopped_as r0 r"
    have nr: "\<forall>b st'. r \<noteq> Returns (b, st')" using a(2) by auto
    from rec[OF a(1)] have "stdin_log w' = stdin_log w" by blast
    with nr show ?thesis by simp
  next
    fix st1 w1 r0
    assume a: "receive st w = (Returns st1, w1)" "announce p st1 w1 = (r0, w')" "stopped_as r0 r"
    from rec[OF a(1)] have "\<not> initialized st1" by blast
    with announce_effect[OF a(2)] have "r0 = Returns st1" by blast
    with a(3) show ?thesis by simp
  next
    fix st1 w1 st2 w2
    assume a: "receive st w = (Returns st1, w1)" "announce p st1 w1 = (Returns st2, w2)"
      "settle st2 w2 = (r, w')"
    from rec[OF a(1)] have u1: "stdin_log w1 = stdin_log w" "\<not> initialized st1" "\<not> file_opened st1"
      by blast+
    from announce_effect[OF a(2)] u1(2) have "w2 = w1 \<and> Returns st2 = Returns st1" by blast
    then have u2: "w2 = w1" "st2 = st1" by simp_all
    from settle_effect[OF a(3)] u1(3) u2(2) have "w' = w2 \<and> r = Returns (False, st2)" by blast
    with u1 u2 show ?thesis by simp
  qed
qed

text \<open>A pass on a silent script returns nothing new within one slice.\<close>

lemma iteration_silent:
  assumes "\<not> initialized st" "\<not> file_opened st" "\<forall>e \<in> set (script w). silent e"
  shows "\<exists>w1. iteration p st w = (Returns (False, st), w1)
     \<and> clock w \<le> clock w1 \<and> clock w1 \<le> clock w + 100
     \<and> (\<forall>e \<in> set (script w1). silent e)"
proof -
  have "\<exists>w1. receive st w = (Returns st, w1)
     \<and> clock w \<le> clock w1 \<and> clock w1 \<le> clock w + 100
     \<and> (\<forall>e \<in> set (script w1). silent e)"
  proof (cases "script w")
    case Nil
    then show ?thesis by (simp add: receive_def next_response_def)
  next
    case (Cons e es)
    with assms(3) obtain d where "e = Nothing d" "d \<le> 100"
      by (cases e) (auto simp: silent_def)
    with Cons assms(3) show ?thesis by (simp add: receive_def next_response_def)
  qed
  then obtain w1 where w1: "receive st w = (Returns st, w1)"
     "clock w \<le> clock w1" "clock w1 \<le> clock w + 100" "\<forall>e \<in> set (script w1). silent e"
    by blast
  have "iteration p st w = (Returns (False, st), w1)"
    using assms(1,2) by (simp add: iteration_def w1(1) announce_def settle_def)
  with w1 show ?thesis by blast
qed

subsection \<open>The polling loop\<close>

lemma poll_loop_proc: "poll_loop p start st w = (r, w') \<Longrightarrow> proc w' = proc w"
proof (erule poll_loop_runs[where Q = "\<lambda>st w r w'. proc w' = proc w"])
  fix st w r1 w1
  assume "iteration p st w = (r1, w1)"
  from iteration_effect[OF this] show "proc w1 = proc w" by blast
next
  fix st w st1 w1
  assume "iteration p st w = (Returns (True, st1), w1)"
  from iteration_effect[OF this] show "proc w1 = proc w" by blast
next
  fix st w st1 w1 and w' :: session
  assume "iteration p st w = (Returns (False, st1), w1)" "proc w' = proc w1"
  with iteration_effect[OF this(1)] show "proc w' = proc w" by simp
qed simp

text \<open>
  What the loop returns are the diagnostics it started with, then those of the messages
  it took from the script.
\<close>

lemma poll_loop_collects:
  "poll_loop p start st w = (r, w') \<Longrightarrow>
     \<exists>c. script w = c @ script w'
       \<and> (\<forall>ds. r = Returns ds \<longrightarrow> ds = diagnostics st @ concat (map contribution c))"
proof (erule poll_loop_runs[where Q = "\<lambda>st w r w'. \<exists>c. script w = c @ script w'
       \<and> (\<forall>ds. r = Returns ds \<longrightarrow> ds = diagnostics st @ concat (map contribution c))"])
  fix st w
  show "\<exists>c. script w = c @ script w
       \<and> (\<forall>ds. Returns (diagnostics st) = Returns ds \<longrightarrow> ds = diagnostics st @ concat (map contribution c))"
    by (intro exI[of _ "[]"]) simp
next
  fix st w r1 w1 and r :: "json list outcome"
  assume "iteration p st w = (r1, w1)" "stopped_as r1 r"
  from iteration_effect[OF this(1)] obtain c where "script w = c @ script w1" by blast
  moreover have "\<forall>ds. r \<noteq> Returns ds" using \<open>stopped_as r1 r\<close> by auto
  ultimately show "\<exists>c. script w = c @ script w1
       \<and> (\<forall>ds. r = Returns ds \<longrightarrow> ds = diagnostics st @ concat (map contribution c))"
    by blast
next
  fix st w st1 w1
  assume "iteration p st w = (Returns (True, st1), w1)"
  from iteration_effect[OF this] obtain c where "script w = c @ script w1"
    "diagnostics st1 = diagnostics st @ concat (map contribution c)" by blast
  then show "\<exists>c. script w = c @ script w1
       \<and> (\<forall>ds. Returns (diagnostics st1) = Returns ds \<longrightarrow> ds = diagnostics st @ concat (map contribution c))"
    by (intro exI[of _ c]) simp
next
  fix st w st1 w1 w' and r :: "json list outcome"
  assume it: "iteration p st w = (Returns (False, st1), w1)"
    and ih: "\<exists>c. script w1 = c @ script w'
       \<and> (\<forall>ds. r = Returns ds \<longrightarrow> ds = diagnostics st1 @ concat (map contribution c))"
  from iteration_effect[OF it] obtain c1 where c1: "script w = c1 @ script w1"
    "diagnostics st1 = diagnostics st @ concat (map contribution c1)" by blast
  from ih obtain c2 where c2: "script w1 = c2 @ script w'"
    "\<forall>ds. r = Returns ds \<longrightarrow> ds = diagnostics st1 @ concat (map contribution c2)" by blast
  have "script w = (c1 @ c2) @ script w'" using c1(1) c2(1) by simp
  moreover have "\<forall>ds. r = Returns ds \<longrightarrow> ds = diagnostics st @ concat (map contribution (c1 @ c2))"
    using c1(2) c2(2) by simp
  ultimately show "\<exists>c. script w = c @ script w'
       \<and> (\<forall>ds. r = Returns ds \<longrightarrow> ds = diagnostics st @ concat (map contribution c))"
    by blast
qed

text \<open>
  While no event of the script is taken for the response to \<open>initialize\<close>, the loop
  writes nothing.
\<close>

lemma poll_loop_uninitialized:
  assumes "poll_loop p start st w = (r, w')"
  shows "\<not> initialized st \<and> \<not> file_opened st \<and> (\<forall>e \<in> set (script w). \<not> accepting e)
     \<longrightarrow> stdin_log w' = stdin_log w"
  using assms
proof (rule poll_loop_runs[where Q = "\<lambda>st w r w'.
     \<not> initialized st \<and> \<not> file_opened st \<and> (\<forall>e \<in> set (script w). \<not> accepting e)
     \<longrightarrow> stdin_log w' = stdin_log w"])
  fix st w r1 w1
  assume it: "iteration p st w = (r1, w1)"
  show "\<not> initialized st \<and> \<not> file_opened st \<and> (\<forall>e \<in> set (script w). \<not> accepting e)
     \<longrightarrow> stdin_log w1 = stdin_log w"
  proof
    assume a: "\<not> initialized st \<and> \<not> file_opened st \<and> (\<forall>e \<in> set (script w). \<not> accepting e)"
    then have "\<forall>e \<in> set (take 1 (script w)). \<not> accepting e" by (meson in_set_takeD)
    with iteration_uninitialized[OF it] a show "stdin_log w1 = stdin_log w" by blast
  qed
next
  fix st w st1 w1
  assume it: "iteration p st w = (Returns (True, st1), w1)"
  show "\<not> initialized st \<and> \<not> file_opened st \<and> (\<forall>e \<in> set (script w). \<not> accepting e)
     \<longrightarrow> stdin_log w1 = stdin_log w"
  proof
    assume a: "\<not> initialized st \<and> \<not> file_opened st \<and> (\<forall>e \<in> set (script w). \<not> accepting e)"
    then have "\<forall>e \<in> set (take 1 (script w)). \<not> accepting e" by (meson in_set_takeD)
    with iteration_uninitialized[OF it] a show "stdin_log w1 = stdin_log w" by blast
  qed
next
  fix st w st1 w1 w' and r :: "json list outcome"
  assume it: "iteration p st w = (Returns (False, st1), w1)"
    and ih: "\<not> initialized st1 \<and> \<not> file_opened st1 \<and> (\<forall>e \<in> set (script w1). \<not> accepting e)
     \<longrightarrow> stdin_log w' = stdin_log w1"
  show "\<not> initialized st \<and> \<not> file_opened st \<and> (\<forall>e \<in> set (script w). \<not> accepting e)
     \<longrightarrow> stdin_log w' = stdin_log w"
  proof
    assume a: "\<not> initialized st \<and> \<not> file_opened st \<and> (\<forall>e \<in> set (script w). \<not> accepting e)"
    then have "\<forall>e \<in> set (take 1 (script w)). \<not> accepting e" by (meson in_set_takeD)
    with iteration_uninitialized[OF it] a
    have u: "stdin_log w1 = stdin_log w" "\<not> initialized st1" "\<not> file_opened st1" by blast+
    from iteration_effect[OF it] obtain c where "script w = c @ script w1" by blast
    with a have "\<forall>e \<in> set (script w1). \<not> accepting e" by simp
    with ih u show "stdin_log w' = stdin_log w" by simp
  qed
qed simp

text \<open>
  On a silent script the loop returns no diagnostic, not before the deadline and less
  than one slice after it.
\<close>

lemma poll_loop_silent:
  assumes "poll_loop p start st w = (r, w')"
  shows "\<not> initialized st \<and> \<not> file_opened st \<and> diagnostics st = []
       \<and> (\<forall>e \<in> set (script w). silent e)
     \<longrightarrow> r = Returns [] \<and> start + 5000 \<le> clock w' \<and> clock w' \<le> max (clock w) (start + 5099)"
  using assms
proof (rule poll_loop_runs[where Q = "\<lambda>st w r w'.
     \<not> initialized st \<and> \<not> file_opened st \<and> diagnostics st = []
       \<and> (\<forall>e \<in> set (script w). silent e)
     \<longrightarrow> r = Returns [] \<and> start + 5000 \<le> clock w' \<and> clock w' \<le> max (clock w) (start + 5099)"])
  fix st w
  assume "\<not> clock w - start < 5000"
  then show "\<not> initialized st \<and> \<not> file_opened st \<and> diagnostics st = []
       \<and> (\<forall>e \<in> set (script w). silent e)
     \<longrightarrow> Returns (diagnostics st) = Returns [] \<and> start + 5000 \<le> clock w
         \<and> clock w \<le> max (clock w) (start + 5099)"
    by auto
next
  fix st w r1 w1 and r :: "json list outcome"
  assume it: "iteration p st w = (r1, w1)" and s: "stopped_as r1 r"
  show "\<not> initialized st \<and> \<not> file_opened st \<and> diagnostics st = []
       \<and> (\<forall>e \<in> set (script w). silent e)
     \<longrightarrow> r = Returns [] \<and> start + 5000 \<le> clock w1 \<and> clock w1 \<le> max (clock w) (start + 5099)"
  proof
    assume a: "\<not> initialized st \<and> \<not> file_opened st \<and> diagnostics st = []
       \<and> (\<forall>e \<in> set (script w). silent e)"
    with iteration_silent[of st w p] it have "r1 = Returns (False, st)" by auto
    with s show "r = Returns [] \<and> start + 5000 \<le> clock w1 \<and> clock w1 \<le> max (clock w) (start + 5099)"
      by simp
  qed
next
  fix st w st1 w1
  assume it: "iteration p st w = (Returns (True, st1), w1)"
  show "\<not> initialized st \<and> \<not> file_opened st \<and> diagnostics st = []
       \<and> (\<forall>e \<in> set (script w). silent e)
     \<longrightarrow> Returns (diagnostics st1) = Returns [] \<and> start + 5000 \<le> clock w1
         \<and> clock w1 \<le> max (clock w) (start + 5099)"
  proof
    assume a: "\<not> initialized st \<and> \<not> file_opened st \<and> diagnostics st = []
       \<and> (\<forall>e \<in> set (script w). silent e)"
    with iteration_silent[of st w p] it have False by auto
    then show "Returns (diagnostics st1) = Returns [] \<and> start + 5000 \<le> clock w1
         \<and> clock w1 \<le> max (clock w) (start + 5099)" ..
  qed
next
  fix st w st1 w1 w' and r :: "json list outcome"
  assume c: "clock w - start < 5000"
    and it: "iteration p st w = (Returns (False, st1), w1)"
    and ih: "\<not> initialized st1 \<and> \<not> file_opened st1 \<and> diagnostics st1 = []
       \<and> (\<forall>e \<in> set (script w1). silent e)
     \<longrightarrow> r = Returns [] \<and> start + 5000 \<le> clock w' \<and> clock w' \<le> max (clock w1) (start + 5099)"
  show "\<not> initialized st \<and> \<not> file_opened st \<and> diagnostics st = []
       \<and> (\<forall>e \<in> set (script w). silent e)
     \<longrightarrow> r = Returns [] \<and> start + 5000 \<le> clock w' \<and> clock w' \<le> max (clock w) (start + 5099)"
  proof
    assume a: "\<not> initialized st \<and> \<not> file_opened st \<and> diagnostics st = []
       \<and> (\<forall>e \<in> set (script w). silent e)"
    with iteration_silent[of st w p] it
    have u: "st1 = st" "clock w1 \<le> clock w + 100" "\<forall>e \<in> set (script w1). silent e" by auto
    with ih a have "r = Returns [] \<and> start + 5000 \<le> clock w'
        \<and> clock w' \<le> max (clock w1) (start + 5099)" by simp
    moreover have "clock w1 \<le> start + 5099" using u(2) c by linarith
    ultimately show "r = Returns [] \<and> start + 5000 \<le> clock w'
        \<and> clock w' \<le> max (clock w) (start + 5099)" by auto
  qed
qed

subsection \<open>lint\_file\<close>

lemma send_request_writes:
  "send_request w m p i = write_stdin (content (dumps (request_message m p i))) w"
  by (simp add: send_request_def utf8_encode_ascii)

lemma send_notification_writes:
  "send_notification w m p = write_stdin (content (dumps (notification_message m p))) w"
  by (simp add: send_notification_def utf8_encode_ascii)

text \<open>\<open>proc.wait()\<close> after \<open>proc.terminate()\<close> on a running subprocess.\<close>

lemma wait_terminate:
  assumes "wait (terminate w) = (r, w')"
  shows "script w' = script w \<and> stdin_log w' = stdin_log w \<and> r \<noteq> Raises e
     \<and> (r = Hangs \<longrightarrow> w' = terminate w)
     \<and> (state (proc w) = Running \<and> r = Returns u \<longrightarrow>
           (\<exists>d. exits_after (proc w) = Some d \<and> clock w' = clock w + d)
           \<and> proc w' = (proc w)\<lparr>state := Reaped, signals := signals (proc w) @ [SIGTERM]\<rparr>)
     \<and> (state (proc w) = Running \<longrightarrow>
           r = (case exits_after (proc w) of None \<Rightarrow> Hangs | Some d \<Rightarrow> Returns ()))"
  using assms by (auto simp: wait_def terminate_def split: option.splits if_splits)

lemma lint_file_cases:
  assumes "lint_file w path root = (r, w')"
  obtains (launch_failed) e where "launch w = Some e" "r = Raises e" "w' = w"
  | (write_failed) r0 where "launch w = None"
      "write_stdin (initialize_frame w root) (popen w) = (r0, w')" "stopped_as r0 r"
  | (loop_stopped) w1 r0 where "launch w = None"
      "write_stdin (initialize_frame w root) (popen w) = (Returns (), w1)"
      "poll_loop (resolve w1 root path) (clock w1) fresh w1 = (r0, w')" "stopped_as r0 r"
  | (wait_blocked) w1 w2 ds where "launch w = None"
      "write_stdin (initialize_frame w root) (popen w) = (Returns (), w1)"
      "poll_loop (resolve w1 root path) (clock w1) fresh w1 = (Returns ds, w2)"
      "wait (terminate w2) = (Hangs, w')" "r = Hangs"
  | (finished) w1 w2 ds where "launch w = None"
      "write_stdin (initialize_frame w root) (popen w) = (Returns (), w1)"
      "poll_loop (resolve w1 root path) (clock w1) fresh w1 = (Returns ds, w2)"
      "wait (terminate w2) = (Returns (), w')" "r = Returns ds"
proof (cases "launch w")
  case (Some e)
  with assms have "r = Raises e" "w' = w" by (simp_all add: lint_file_def)
  with Some show ?thesis by (rule launch_failed)
next
  case None
  obtain r0 w1 where ws: "write_stdin (initialize_frame w root) (popen w) = (r0, w1)"
    by (cases "write_stdin (initialize_frame w root) (popen w)")
  have l: "lint_file w path root = and_then (r0, w1) (\<lambda>_ w.
          and_then (poll_loop (resolve w root path) (clock w) fresh w) (\<lambda>diags w.
          and_then (wait (terminate w)) (\<lambda>_ w.
            (Returns diags, w))))"
    using None ws
    by (simp add: lint_file_def send_request_writes initialize_frame_def fresh_def)
  show ?thesis
  proof (cases r0)
    case (Returns u)
    obtain r1 w2 where pl: "poll_loop (resolve w1 root path) (clock w1) fresh w1 = (r1, w2)"
      by (cases "poll_loop (resolve w1 root path) (clock w1) fresh w1")
    show ?thesis
    proof (cases r1)
      case ds: (Returns ds)
      obtain r2 w3 where wt: "wait (terminate w2) = (r2, w3)" by (cases "wait (terminate w2)")
      show ?thesis
      proof (cases r2)
        case u2: (Returns u2)
        with assms l Returns pl ds wt have "r = Returns ds" "w' = w3" by simp_all
        with None ws Returns pl ds wt u2 show ?thesis by (intro finished[of w1 ds w2]) simp_all
      next
        case (Raises e)
        with wait_terminate[OF wt, of e] show ?thesis by simp
      next
        case Hangs
        with assms l Returns pl ds wt have "r = Hangs" "w' = w3" by simp_all
        with None ws Returns pl ds wt Hangs show ?thesis
          by (intro wait_blocked[of w1 ds w2]) simp_all
      qed
    next
      case (Raises e)
      with assms l Returns pl have "r = Raises e" "w' = w2" by simp_all
      with None ws Returns pl Raises show ?thesis
        by (intro loop_stopped[of w1 r1]) (simp_all add: stopped_as_def)
    next
      case Hangs
      with assms l Returns pl have "r = Hangs" "w' = w2" by simp_all
      with None ws Returns pl Hangs show ?thesis
        by (intro loop_stopped[of w1 r1]) (simp_all add: stopped_as_def)
    qed
  next
    case (Raises e)
    with assms l have "r = Raises e" "w' = w1" by simp_all
    with None ws Raises show ?thesis by (intro write_failed[of r0]) (simp_all add: stopped_as_def)
  next
    case Hangs
    with assms l have "r = Hangs" "w' = w1" by simp_all
    with None ws Hangs show ?thesis by (intro write_failed[of r0]) (simp_all add: stopped_as_def)
  qed
qed

lemma write_stdin_succeeds:
  assumes "writes_left w \<noteq> Some 0"
  shows "\<exists>w1. write_stdin bs w = (Returns (), w1) \<and> stdin_log w1 = stdin_log w @ [bs]
     \<and> script w1 = script w \<and> clock w1 = clock w \<and> proc w1 = proc w"
  using assms by (cases "writes_left w") (auto simp: write_stdin_def split: nat.splits)

lemma popen_frame [simp]:
  "script (popen w) = script w" "clock (popen w) = clock w" "stdin_log (popen w) = stdin_log w"
  "writes_left (popen w) = writes_left w" "resolve (popen w) = resolve w"
  "state (proc (popen w)) = Running" "signals (proc (popen w)) = []"
  "exits_after (proc (popen w)) = exits_after (proc w)"
  by (simp_all add: popen_def)

subsection \<open>A read that fails\<close>

lemma passes_refl: "script w' = script w \<Longrightarrow> passes_on w r w'"
  unfolding passes_on_def by (intro exI[of _ "[]"]) simp

lemma passes_step:
  assumes "passes_on w (Returns x) w1" "passes_on w1 r w'"
  shows "passes_on w r w'"
proof -
  from assms(1) obtain c1 where c1: "script w = c1 @ script w1" "\<forall>e d. Failure e d \<notin> set c1"
    unfolding passes_on_def by auto
  from assms(2) obtain c2 where c2: "script w1 = c2 @ script w'"
    "\<forall>e d. Failure e d \<in> set c2 \<longrightarrow> r = Raises e"
    unfolding passes_on_def by auto
  have "script w = (c1 @ c2) @ script w'" using c1(1) c2(1) by simp
  moreover have "\<forall>e d. Failure e d \<in> set (c1 @ c2) \<longrightarrow> r = Raises e" using c1(2) c2(2) by simp
  ultimately show ?thesis unfolding passes_on_def by blast
qed

lemma passes_stop:
  assumes "passes_on w r0 w'" "stopped_as r0 r"
  shows "passes_on w r w'"
proof -
  from assms(1) obtain c where c: "script w = c @ script w'"
    "\<forall>e d. Failure e d \<in> set c \<longrightarrow> r0 = Raises e"
    unfolding passes_on_def by auto
  have "\<forall>e d. Failure e d \<in> set c \<longrightarrow> r = Raises e"
    using c(2) assms(2) by (auto simp: stopped_as_def)
  with c(1) show ?thesis unfolding passes_on_def by blast
qed

lemma passes_returns: "passes_on w (Returns x) w' \<Longrightarrow> passes_on w r w'"
  unfolding passes_on_def by auto

lemma next_response_passes:
  assumes "next_response t w = (r, w')"
  shows "passes_on w r w'"
proof (cases "script w")
  case Nil
  with assms have "script w' = script w" by (auto simp: next_response_def)
  then show ?thesis by (rule passes_refl)
next
  case (Cons ev es)
  with assms have "script w' = es \<and> (\<forall>e d. ev = Failure e d \<longrightarrow> r = Raises e)"
    by (cases ev) (auto simp: next_response_def)
  with Cons show ?thesis unfolding passes_on_def by (intro exI[of _ "[ev]"]) auto
qed

lemma drain_passes: "drain diags w = (r, w') \<Longrightarrow> passes_on w r w'"
proof (induction diags w rule: drain.induct)
  case (1 diags w)
  obtain r1 w1 where n: "next_response 100 w = (r1, w1)" by (cases "next_response 100 w")
  note p = next_response_passes[OF n]
  show ?case
  proof (cases r1)
    case (Returns resp)
    show ?thesis
    proof (cases resp)
      case None
      with 1(3) n Returns have "w' = w1" by (simp add: drain.simps[of diags w])
      with p Returns show ?thesis by (auto intro: passes_returns)
    next
      case (Some m)
      have there: "w' = w1 \<Longrightarrow> ?thesis" using p Returns by (auto intro: passes_returns)
      show ?thesis
      proof (cases "truthy m")
        case False
        with 1(3) n Returns Some have "w' = w1" by (simp add: drain.simps[of diags w])
        then show ?thesis by (rule there)
      next
        case True
        show ?thesis
        proof (cases "get m (ascii ''method'') JNull")
          case (Inl e)
          with 1(3) n Returns Some True have "w' = w1" by (simp add: drain.simps[of diags w])
          then show ?thesis by (rule there)
        next
          case (Inr v)
          show ?thesis
          proof (cases "v = JStr publishDiagnostics")
            case pd: True
            show ?thesis
            proof (cases "published m")
              case (Inl e)
              with 1(3) n Returns Some True Inr pd have "w' = w1"
                by (simp add: drain.simps[of diags w])
              then show ?thesis by (rule there)
            next
              case ds: (Inr ds)
              from 1(3) n Returns Some True Inr pd ds
              have "drain (diags @ ds) w1 = (r, w')" by (simp add: drain.simps[of diags w])
              from 1(1)[OF n[symmetric] Returns Some True Inr pd ds this]
              have "passes_on w1 r w'" .
              with p Returns show ?thesis by (auto intro: passes_step)
            qed
          next
            case npd: False
            from 1(3) n Returns Some True Inr npd
            have "drain diags w1 = (r, w')" by (simp add: drain.simps[of diags w])
            from 1(2)[OF n[symmetric] Returns Some True Inr npd this]
            have "passes_on w1 r w'" .
            with p Returns show ?thesis by (auto intro: passes_step)
          qed
        qed
      qed
    qed
  next
    case (Raises e)
    with 1(3) n have e: "r = Raises e" "w' = w1" by (simp_all add: drain.simps[of diags w])
    have "stopped_as r1 r" using Raises e by (simp add: stopped_as_def)
    from passes_stop[OF p this] e show ?thesis by simp
  next
    case Hangs
    with 1(3) n have e: "r = Hangs" "w' = w1" by (simp_all add: drain.simps[of diags w])
    have "stopped_as r1 r" using Hangs e by (simp add: stopped_as_def)
    from passes_stop[OF p this] e show ?thesis by simp
  qed
qed

lemma receive_passes:
  assumes "receive st w = (r, w')"
  shows "passes_on w r w'"
proof -
  from assms have "and_then (next_response 100 w) (\<lambda>resp w.
       case resp of
         None \<Rightarrow> (Returns st, w)
       | Some r \<Rightarrow> if truthy r then handle_response r st w else (Returns st, w)) = (r, w')"
    by (simp add: receive_def)
  then show ?thesis
  proof (rule and_then_cases)
    fix resp w1
    assume n: "next_response 100 w = (Returns resp, w1)"
      and h: "(case resp of
         None \<Rightarrow> (Returns st, w1)
       | Some r \<Rightarrow> if truthy r then handle_response r st w1 else (Returns st, w1)) = (r, w')"
    from h have "script w' = script w1"
      by (auto split: option.splits if_splits dest: handle_response_frame)
    then have "passes_on w1 r w'" by (rule passes_refl)
    with next_response_passes[OF n] show ?thesis by (rule passes_step)
  next
    fix r0
    assume n: "next_response 100 w = (r0, w')" and s: "stopped_as r0 r"
    from next_response_passes[OF n] s show ?thesis by (rule passes_stop)
  qed
qed

lemma settle_passes:
  assumes "settle st w = (r, w')"
  shows "passes_on w r w'"
proof (cases "file_opened st \<and> diagnostics st \<noteq> []")
  case False
  with assms have "w' = w" by (auto simp: settle_def)
  then show ?thesis by (simp add: passes_refl)
next
  case True
  obtain r1 w1 where d: "drain (diagnostics st) (sleep 200 w) = (r1, w1)"
    by (cases "drain (diagnostics st) (sleep 200 w)")
  have "passes_on w (Returns ()) (sleep 200 w)" by (rule passes_refl) (simp add: sleep_def)
  from passes_step[OF this drain_passes[OF d]] have p: "passes_on w r1 w1" .
  from assms True d have w: "w' = w1"
    by (cases r1) (auto simp: settle_def and_then_def)
  show ?thesis
  proof (cases r1)
    case (Returns ds)
    with p w show ?thesis by (auto intro: passes_returns)
  next
    case (Raises e)
    with assms True d have "r = Raises e" by (simp add: settle_def)
    with p w Raises show ?thesis by (simp add: passes_on_def)
  next
    case Hangs
    with assms True d have "r = Hangs" by (simp add: settle_def)
    with p w Hangs show ?thesis by (simp add: passes_on_def)
  qed
qed

lemma iteration_passes:
  assumes "iteration p st w = (r, w')"
  shows "passes_on w r w'"
  using assms
proof (rule iteration_cases)
  fix r0
  assume "receive st w = (r0, w')" "stopped_as r0 r"
  from receive_passes[OF this(1)] this(2) show ?thesis by (rule passes_stop)
next
  fix st1 w1 r0
  assume a: "receive st w = (Returns st1, w1)" "announce p st1 w1 = (r0, w')" "stopped_as r0 r"
  from announce_frame[OF a(2)] have "passes_on w1 r w'" by (simp add: passes_refl)
  with receive_passes[OF a(1)] show ?thesis by (rule passes_step)
next
  fix st1 w1 st2 w2
  assume a: "receive st w = (Returns st1, w1)" "announce p st1 w1 = (Returns st2, w2)"
    "settle st2 w2 = (r, w')"
  from announce_frame[OF a(2)] have "passes_on w1 (Returns st2) w2" by (simp add: passes_refl)
  from passes_step[OF receive_passes[OF a(1)] passes_step[OF this settle_passes[OF a(3)]]]
  show ?thesis .
qed

lemma poll_loop_passes: "poll_loop p start st w = (r, w') \<Longrightarrow> passes_on w r w'"
proof (erule poll_loop_runs[where Q = "\<lambda>st w r w'. passes_on w r w'"])
  fix st w
  show "passes_on w (Returns (diagnostics st)) w" by (simp add: passes_refl)
next
  fix st w r1 w1 and r :: "json list outcome"
  assume "iteration p st w = (r1, w1)" "stopped_as r1 r"
  from iteration_passes[OF this(1)] this(2) show "passes_on w r w1" by (rule passes_stop)
next
  fix st w st1 w1
  assume "iteration p st w = (Returns (True, st1), w1)"
  from iteration_passes[OF this] show "passes_on w (Returns (diagnostics st1)) w1"
    by (rule passes_returns)
next
  fix st w st1 w1 w' and r :: "json list outcome"
  assume "iteration p st w = (Returns (False, st1), w1)" "passes_on w1 r w'"
  from iteration_passes[OF this(1)] this(2) show "passes_on w r w'" by (rule passes_step)
qed

text \<open>
  \<open>lint_file\<close> has no handler: the exception of a read that fails anywhere in the
  session is the outcome of \<open>lint_file\<close>.
\<close>

lemma lint_file_passes:
  assumes "lint_file w path root = (r, w')"
  shows "passes_on w r w'"
  using assms
proof (cases rule: lint_file_cases)
  case (launch_failed e)
  then show ?thesis by (simp add: passes_refl)
next
  case (write_failed r0)
  from write_stdin_frame[OF write_failed(2)] show ?thesis by (simp add: passes_refl)
next
  case (loop_stopped w1 r0)
  from write_stdin_frame[OF loop_stopped(2)] have "passes_on w (Returns ()) w1"
    by (simp add: passes_refl)
  from passes_step[OF this poll_loop_passes[OF loop_stopped(3)]] loop_stopped(4)
  show ?thesis by (rule passes_stop)
next
  case (wait_blocked w1 w2 ds)
  from write_stdin_frame[OF wait_blocked(2)] have "passes_on w (Returns ()) w1"
    by (simp add: passes_refl)
  from passes_step[OF this poll_loop_passes[OF wait_blocked(3)]]
  have "passes_on w (Returns ds) w2" .
  moreover have "script w' = script w2"
    using wait_terminate[OF wait_blocked(4)] by blast
  then have "passes_on w2 r w'" by (rule passes_refl)
  ultimately show ?thesis by (rule passes_step)
next
  case (finished w1 w2 ds)
  from write_stdin_frame[OF finished(2)] have "passes_on w (Returns ()) w1"
    by (simp add: passes_refl)
  from passes_step[OF this poll_loop_passes[OF finished(3)]]
  have "passes_on w (Returns ds) w2" .
  moreover have "script w' = script w2"
    using wait_terminate[OF finished(4)] by blast
  then have "passes_on w2 r w'" by (rule passes_refl)
  ultimately show ?thesis by (rule passes_step)
qed

lemma lint_file_read_failure:
  assumes "script w = c @ script (snd (lint_file w path root))" "Failure e d \<in> set c"
  shows "fst (lint_file w path root) = Raises e"
proof -
  obtain r w' where l: "lint_file w path root = (r, w')" by (cases "lint_file w path root")
  from lint_file_passes[OF l] obtain c0 where c0: "script w = c0 @ script w'"
    "\<forall>e d. Failure e d \<in> set c0 \<longrightarrow> r = Raises e"
    unfolding passes_on_def by auto
  from assms(1) l c0(1) have "c = c0" by simp
  with assms(2) c0(2) l show ?thesis by auto
qed

lemma lint_file_launch_failure: "launch w = Some e \<Longrightarrow> lint_file w path root = (Raises e, w)"
  by (simp add: lint_file_def)

lemma lint_file_write_failure:
  "launch w = None \<Longrightarrow> writes_left w = Some 0 \<Longrightarrow>
     lint_file w path root = (Raises BrokenPipeError, popen w)"
  by (simp add: lint_file_def send_request_writes write_stdin_def)

section \<open>The batch driver\<close>

subsection \<open>The line of one diagnostic\<close>

lemma bind_sum_Inr: "bind_sum r f = Inr y \<Longrightarrow> \<exists>x. r = Inr x \<and> f x = Inr y"
  by (cases r) (simp_all add: bind_sum_def)

lemma get_Inr:
  "get obj key dflt = Inr v \<Longrightarrow>
     \<exists>kvs. obj = JObj kvs \<and> v = (case map_of kvs key of None \<Rightarrow> dflt | Some x \<Rightarrow> x)"
  by (cases obj) (simp_all add: get_def)

lemma add1_Inr: "add1 x = Inr l \<Longrightarrow> l = number x + 1"
  by (cases x) (auto simp: add1_def number_def)

lemma le2_Inr: "le2 x = Inr b \<Longrightarrow> b = (number x \<le> 2)"
  by (cases x) (auto simp: le2_def number_def)

lemma number_zero [simp]: "number (JInt 0) = 0" "number (JInt 1) = 1"
  by (simp_all add: number_def)

text \<open>When \<open>d.get("range", {}).get("start", {}).get(key, 0) + 1\<close> has a value, it is the position plus one.\<close>

lemma start_field_returns:
  assumes "start_field d key = Inr l"
  shows "l = position d key + 1"
proof -
  from assms obtain range where g1: "get d (ascii ''range'') (JObj []) = Inr range"
    and b1: "bind_sum (get range (ascii ''start'') (JObj [])) (\<lambda>start.
               bind_sum (get start key (JInt 0)) add1) = Inr l"
    unfolding start_field_def by (blast dest: bind_sum_Inr)
  from b1 obtain start where g2: "get range (ascii ''start'') (JObj []) = Inr start"
    and b2: "bind_sum (get start key (JInt 0)) add1 = Inr l"
    by (blast dest: bind_sum_Inr)
  from b2 obtain v where g3: "get start key (JInt 0) = Inr v" and a: "add1 v = Inr l"
    by (blast dest: bind_sum_Inr)
  from get_Inr[OF g1] obtain kvs where d: "d = JObj kvs"
    and range: "range = (case map_of kvs (ascii ''range'') of None \<Rightarrow> JObj [] | Some x \<Rightarrow> x)"
    by blast
  from get_Inr[OF g2] obtain rs where r: "range = JObj rs"
    and start: "start = (case map_of rs (ascii ''start'') of None \<Rightarrow> JObj [] | Some x \<Rightarrow> x)"
    by blast
  from get_Inr[OF g3] obtain ss where s: "start = JObj ss"
    and v: "v = (case map_of ss key of None \<Rightarrow> JInt 0 | Some x \<Rightarrow> x)"
    by blast
  have "position d key = number v"
  proof (cases "map_of kvs (ascii ''range'')")
    case None
    with range r have "rs = []" by simp
    with start s have "ss = []" by simp
    with v have "v = JInt 0" by simp
    with None d show ?thesis by (simp add: position_def field_def)
  next
    case (Some x)
    with range r have x: "x = JObj rs" by simp
    show ?thesis
    proof (cases "map_of rs (ascii ''start'')")
      case None
      with start s have "ss = []" by simp
      with v have "v = JInt 0" by simp
      with None Some x d show ?thesis by (simp add: position_def field_def)
    next
      case st: (Some y)
      with start s have y: "y = JObj ss" by simp
      show ?thesis
      proof (cases "map_of ss key")
        case None
        with v have "v = JInt 0" by simp
        with None st y Some x d show ?thesis by (simp add: position_def field_def)
      next
        case k: (Some n)
        with v have "v = n" by simp
        with k st y Some x d show ?thesis by (simp add: position_def field_def)
      qed
    qed
  qed
  with add1_Inr[OF a] show ?thesis by simp
qed

lemma text_of_py_str: "text_of render v = py_str render v"
  by (cases v) (simp_all add: text_of_def py_str_def)

text \<open>
  When the body of \<open>for d in diags:\<close> raises nothing, it prints the specified line for
  a reported diagnostic and nothing for another.
\<close>

lemma diagnostic_line_returns:
  assumes "diagnostic_line render path d = Inr x"
  shows "x = (if reported d then Some (spec_line render path d) else None)"
proof -
  from assms obtain sev where g: "get d (ascii ''severity'') (JInt 1) = Inr sev"
    and b1: "bind_sum (le2 sev) (\<lambda>counted.
       if counted then
         bind_sum (start_field d (ascii ''line'')) (\<lambda>line.
         bind_sum (start_field d (ascii ''character'')) (\<lambda>col.
         bind_sum (get d (ascii ''message'') (JStr [])) (\<lambda>msg.
         bind_sum (get d (ascii ''code'') (JStr [])) (\<lambda>code.
           Inr (Some (path @ ascii '':'' @ str_int line @ ascii '':'' @ str_int col
                      @ ascii '': warning: '' @ py_str render msg
                      @ ascii '' ['' @ py_str render code @ ascii '']''))))))
       else Inr None) = Inr x"
    unfolding diagnostic_line_def by (blast dest: bind_sum_Inr)
  from b1 obtain counted where c: "le2 sev = Inr counted"
    and b2: "(if counted then
         bind_sum (start_field d (ascii ''line'')) (\<lambda>line.
         bind_sum (start_field d (ascii ''character'')) (\<lambda>col.
         bind_sum (get d (ascii ''message'') (JStr [])) (\<lambda>msg.
         bind_sum (get d (ascii ''code'') (JStr [])) (\<lambda>code.
           Inr (Some (path @ ascii '':'' @ str_int line @ ascii '':'' @ str_int col
                      @ ascii '': warning: '' @ py_str render msg
                      @ ascii '' ['' @ py_str render code @ ascii '']''))))))
       else Inr None) = Inr x"
    by (blast dest: bind_sum_Inr)
  from get_Inr[OF g] obtain kvs where d: "d = JObj kvs"
    and sev: "sev = (case map_of kvs (ascii ''severity'') of None \<Rightarrow> JInt 1 | Some x \<Rightarrow> x)"
    by blast
  have "severity_of d = number sev"
    using d sev by (cases "map_of kvs (ascii ''severity'')") (simp_all add: severity_of_def field_def)
  with le2_Inr[OF c] have rep: "counted = reported d" by (simp add: reported_def)
  show ?thesis
  proof (cases counted)
    case False
    with b2 rep show ?thesis by simp
  next
    case True
    with b2 obtain line where l1: "start_field d (ascii ''line'') = Inr line"
      and b3: "bind_sum (start_field d (ascii ''character'')) (\<lambda>col.
         bind_sum (get d (ascii ''message'') (JStr [])) (\<lambda>msg.
         bind_sum (get d (ascii ''code'') (JStr [])) (\<lambda>code.
           Inr (Some (path @ ascii '':'' @ str_int line @ ascii '':'' @ str_int col
                      @ ascii '': warning: '' @ py_str render msg
                      @ ascii '' ['' @ py_str render code @ ascii '']''))))) = Inr x"
      by (auto dest: bind_sum_Inr)
    from b3 obtain col where l2: "start_field d (ascii ''character'') = Inr col"
      and b4: "bind_sum (get d (ascii ''message'') (JStr [])) (\<lambda>msg.
         bind_sum (get d (ascii ''code'') (JStr [])) (\<lambda>code.
           Inr (Some (path @ ascii '':'' @ str_int line @ ascii '':'' @ str_int col
                      @ ascii '': warning: '' @ py_str render msg
                      @ ascii '' ['' @ py_str render code @ ascii '']'')))) = Inr x"
      by (blast dest: bind_sum_Inr)
    have m: "get d (ascii ''message'') (JStr []) = Inr (message_of d)"
      and k: "get d (ascii ''code'') (JStr []) = Inr (code_of d)"
      using d by (simp_all add: get_def message_of_def code_of_def field_def)
    from b4 have "x = Some (path @ ascii '':'' @ str_int line @ ascii '':'' @ str_int col
                      @ ascii '': warning: '' @ py_str render (message_of d)
                      @ ascii '' ['' @ py_str render (code_of d) @ ascii '']'')"
      by (simp add: m k bind_sum_def)
    with start_field_returns[OF l1] start_field_returns[OF l2] True rep show ?thesis
      by (simp add: spec_line_def text_of_py_str)
  qed
qed

subsection \<open>The loops of main\<close>

lemma print_Inr: "print s out = Inr out' \<Longrightarrow> out' = out @ [s]"
  by (auto simp: print_def split: sum.splits)

lemma report_returns:
  "report render path ds (out, n) = (Returns u, st') \<Longrightarrow>
     st' = (out @ map (spec_line render path) (filter reported ds),
            n + length (filter reported ds))"
proof (induction ds arbitrary: out n)
  case Nil
  then show ?case by simp
next
  case (Cons d ds)
  show ?case
  proof (cases "diagnostic_line render path d")
    case (Inl e)
    with Cons.prems show ?thesis by simp
  next
    case (Inr x)
    note x = diagnostic_line_returns[OF Inr]
    show ?thesis
    proof (cases "reported d")
      case False
      with x Inr Cons.prems have "report render path ds (out, n) = (Returns u, st')" by simp
      from Cons.IH[OF this] False show ?thesis by simp
    next
      case True
      let ?line = "spec_line render path d"
      from x True have xl: "x = Some ?line" by simp
      show ?thesis
      proof (cases "print ?line out")
        case pe: (Inl e)
        with xl Inr Cons.prems show ?thesis by simp
      next
        case po: (Inr out')
        with xl Inr Cons.prems
        have "report render path ds (out', n + 1) = (Returns u, st')" by simp
        from Cons.IH[OF this] print_Inr[OF po] True show ?thesis by simp
      qed
    qed
  qed
qed

lemma all_collected_simps [simp]:
  "all_collected world root [] = []"
  "all_collected world root (f # fs) = collected world root f @ all_collected world root fs"
  "all_collected world root (fs @ gs) = all_collected world root fs @ all_collected world root gs"
  by (simp_all add: all_collected_def)

text \<open>
  When the loop over the files runs to its end, every session has returned, and the
  lines of the reported diagnostics were printed and counted, file by file.
\<close>

lemma check_files_returns:
  "check_files render world root fs (out, n) = (Returns u, st') \<Longrightarrow>
     (\<forall>f \<in> set fs. \<exists>ds. fst (lint_file (world f) f root) = Returns ds)
     \<and> st' = (out @ concat (map (file_lines render world root) fs),
              n + length (filter reported (all_collected world root fs)))"
proof (induction fs arbitrary: out n)
  case Nil
  then show ?case by simp
next
  case (Cons f fs)
  from Cons.prems obtain ds where l: "fst (lint_file (world f) f root) = Returns ds"
    by (cases "fst (lint_file (world f) f root)") simp_all
  then have c: "collected world root f = ds" by (simp add: collected_def)
  obtain r out1 n1 where rep: "report render f ds (out, n) = (r, (out1, n1))"
    by (cases "report render f ds (out, n)") auto
  from Cons.prems l rep have r: "r = Returns ()"
    by (cases r) (simp_all add: and_then_def)
  from Cons.prems l rep r
  have rest: "check_files render world root fs (out1, n1) = (Returns u, st')"
    by (simp add: and_then_def)
  from report_returns[OF rep[unfolded r]]
  have o: "out1 = out @ file_lines render world root f"
    "n1 = n + length (filter reported ds)"
    by (simp_all add: file_lines_def c)
  from Cons.IH[OF rest] l o c show ?case by simp
qed

lemma check_files_append:
  "check_files render world root (pre @ rest) st =
     and_then (check_files render world root pre st) (\<lambda>u st. check_files render world root rest st)"
proof (induction pre arbitrary: st)
  case Nil
  then show ?case by simp
next
  case (Cons f fs)
  show ?case
  proof (cases "fst (lint_file (world f) f root)")
    case (Returns ds)
    obtain r st1 where rep: "report render f ds st = (r, st1)" by (cases "report render f ds st")
    show ?thesis by (cases r) (simp_all add: Returns rep Cons.IH)
  qed simp_all
qed

lemma main_unfold:
  "main render world cwd argv found =
     (if chosen argv found = [] then (Returns 0, [ascii ''No files to check''])
      else
        (case check_files render world cwd (chosen argv found)
                (banner (length (chosen argv found)), 0) of
           (Returns u, (out, n)) \<Rightarrow> (Returns (if n = 0 then 0 else 1), out @ footer n)
         | (Raises e, (out, n)) \<Rightarrow> (Raises e, out)
         | (Hangs, (out, n)) \<Rightarrow> (Hangs, out)))"
  unfolding main_def Let_def chosen_def banner_def footer_def by (rule refl)

text \<open>What \<open>main\<close> has printed and what it returns, whenever it returns with files to check.\<close>

lemma main_returns:
  assumes "fst (main render world cwd argv found) = Returns status" "chosen argv found \<noteq> []"
  shows "(\<forall>f \<in> set (chosen argv found). \<exists>ds. fst (lint_file (world f) f cwd) = Returns ds)
     \<and> snd (main render world cwd argv found) =
         banner (length (chosen argv found))
         @ concat (map (file_lines render world cwd) (chosen argv found))
         @ footer (length (filter reported (all_collected world cwd (chosen argv found))))
     \<and> status = (if filter reported (all_collected world cwd (chosen argv found)) = [] then 0 else 1)"
proof -
  obtain r out n where cf: "check_files render world cwd (chosen argv found)
      (banner (length (chosen argv found)), 0) = (r, (out, n))"
    by (cases "check_files render world cwd (chosen argv found) (banner (length (chosen argv found)), 0)") auto
  from assms cf have r: "r = Returns ()"
    by (cases r) (simp_all add: main_unfold)
  from assms cf r have st: "status = (if n = 0 then 0 else 1)"
    and out: "snd (main render world cwd argv found) = out @ footer n"
    by (simp_all add: main_unfold)
  from check_files_returns[OF cf[unfolded r]]
  have a: "\<forall>f \<in> set (chosen argv found). \<exists>ds. fst (lint_file (world f) f cwd) = Returns ds"
    and o: "out = banner (length (chosen argv found))
         @ concat (map (file_lines render world cwd) (chosen argv found))"
    and n: "n = length (filter reported (all_collected world cwd (chosen argv found)))"
    by simp_all
  from a o n st out show ?thesis by simp
qed

lemma main_no_files:
  "chosen argv found = [] \<Longrightarrow>
     main render world cwd argv found = (Returns 0, [ascii ''No files to check''])"
  by (simp add: main_unfold)

subsection \<open>A diagnostic without a severity\<close>





subsection \<open>Evaluated runs\<close>

lemma run_warning:
  "fst (lint_file (answering [diagnostic 2 4 0 (ascii ''unused'')] (ascii ''a.cpp''))
          (ascii ''a.cpp'') (ascii ''/r''))
     = Returns [diagnostic 2 4 0 (ascii ''unused'')]"
  by code_simp

lemma run_timeout:
  "fst (lint_file (scripted []) (ascii ''a.cpp'') (ascii ''/r'')) = Returns []"
  by code_simp

lemma run_note_warning:
  "fst (lint_file (answering [diagnostic 3 7 2 (ascii ''note''), diagnostic 2 4 0 (ascii ''unused'')]
                    (ascii ''a.cpp'')) (ascii ''a.cpp'') (ascii ''/r''))
     = Returns [diagnostic 3 7 2 (ascii ''note''), diagnostic 2 4 0 (ascii ''unused'')]"
  by code_simp


lemma severity_of_diagnostic: "severity_of (diagnostic s l c m) = s"
  by (simp add: severity_of_def diagnostic_def field_def ascii_def number_def)

section \<open>Properties of the framing\<close>

subsection \<open>The round trip\<close>

text \<open>
  C6. What \<open>send_request\<close> and \<open>send_notification\<close> write for a message \<open>m\<close> is the
  header \<open>Content-Length: n\<close>, an empty line and the UTF-8 bytes of \<open>json.dumps(m)\<close>,
  where \<open>n\<close> is the number of these bytes (the text is ASCII, so characters and bytes
  agree); and \<open>read_response\<close> on these bytes, whatever follows them, returns \<open>m\<close> and
  leaves what follows unread, provided \<open>json.loads\<close> gives \<open>m\<close> back from
  \<open>json.dumps(m)\<close>.
\<close>

theorem framing_round_trip:
  assumes "writes_left w \<noteq> Some 0"
    and "sent = send_request w meth params msg_id \<and> m = request_message meth params msg_id
       \<or> sent = send_notification w meth params \<and> m = notification_message meth params"
    and "loads (dumps m) = Inr m"
  shows "\<exists>bs body. fst sent = Returns () \<and> stdin_log (snd sent) = stdin_log w @ [bs]
     \<and> utf8_encode (dumps m) = Inr body
     \<and> bs = ascii ''Content-Length: '' @ decimal (length body) @ [13, 10, 13, 10] @ body
     \<and> read_response loads \<lparr>data = bs @ rest, closed = c\<rparr>
         = (Returns (Some m), \<lparr>data = rest, closed = c\<rparr>)"
proof -
  from assms(2) have s: "sent = write_stdin (content (dumps m)) w"
    by (auto simp: send_request_writes send_notification_writes)
  from write_stdin_succeeds[OF assms(1), of "content (dumps m)"] s
  have w: "fst sent = Returns ()" "stdin_log (snd sent) = stdin_log w @ [content (dumps m)]"
    by auto
  have e: "utf8_encode (dumps m) = Inr (dumps m)" by (simp add: utf8_encode_ascii)
  have r: "read_response loads \<lparr>data = content (dumps m) @ rest, closed = c\<rparr>
         = (Returns (Some m), \<lparr>data = rest, closed = c\<rparr>)"
    using read_response_content[of "dumps m" loads rest c] assms(3)
    by (simp add: dumps_nonempty)
  show ?thesis
    using w e r by (intro exI[of _ "content (dumps m)"] exI[of _ "dumps m"]) (simp add: content_def)
qed

theorem framing_round_trip_witness:
  "writes_left (scripted []) \<noteq> Some 0
   \<and> loads_only (request_message (ascii ''initialize'') (JObj []) (JInt 1))
        (notification_message (ascii ''initialized'') (JObj []))
        (dumps (request_message (ascii ''initialize'') (JObj []) (JInt 1)))
      = Inr (request_message (ascii ''initialize'') (JObj []) (JInt 1))
   \<and> (\<exists>bs. stdin_log (snd (send_request (scripted []) (ascii ''initialize'') (JObj []) (JInt 1))) = [bs]
        \<and> read_response
             (loads_only (request_message (ascii ''initialize'') (JObj []) (JInt 1))
                (notification_message (ascii ''initialized'') (JObj [])))
             \<lparr>data = bs @ [67], closed = False\<rparr>
           = (Returns (Some (request_message (ascii ''initialize'') (JObj []) (JInt 1))),
              \<lparr>data = [67], closed = False\<rparr>))
   \<and> (\<exists>bs. stdin_log (snd (send_notification (scripted []) (ascii ''initialized'') (JObj []))) = [bs]
        \<and> read_response
             (loads_only (request_message (ascii ''initialize'') (JObj []) (JInt 1))
                (notification_message (ascii ''initialized'') (JObj [])))
             \<lparr>data = bs @ [67], closed = False\<rparr>
           = (Returns (Some (notification_message (ascii ''initialized'') (JObj []))),
              \<lparr>data = [67], closed = False\<rparr>))"
proof -
  let ?q = "request_message (ascii ''initialize'') (JObj []) (JInt 1)"
  let ?n = "notification_message (ascii ''initialized'') (JObj [])"
  have a: "writes_left (scripted []) \<noteq> Some 0" "stdin_log (scripted []) = []"
    by (simp_all add: scripted_def)
  have lq: "loads_only ?q ?n (dumps ?q) = Inr ?q" by (simp add: loads_only_def)
  have d: "dumps ?n \<noteq> dumps ?q"
    by (simp add: request_message_def notification_message_def quoted_def ascii_def)
  have ln: "loads_only ?q ?n (dumps ?n) = Inr ?n" using d by (simp add: loads_only_def)
  have q: "send_request (scripted []) (ascii ''initialize'') (JObj []) (JInt 1)
        = send_request (scripted []) (ascii ''initialize'') (JObj []) (JInt 1)
      \<and> ?q = request_message (ascii ''initialize'') (JObj []) (JInt 1)
    \<or> send_request (scripted []) (ascii ''initialize'') (JObj []) (JInt 1)
        = send_notification (scripted []) (ascii ''initialize'') (JObj [])
      \<and> ?q = notification_message (ascii ''initialize'') (JObj [])"
    by simp
  have n: "send_notification (scripted []) (ascii ''initialized'') (JObj [])
        = send_request (scripted []) (ascii ''initialized'') (JObj []) JNull
      \<and> ?n = request_message (ascii ''initialized'') (JObj []) JNull
    \<or> send_notification (scripted []) (ascii ''initialized'') (JObj [])
        = send_notification (scripted []) (ascii ''initialized'') (JObj [])
      \<and> ?n = notification_message (ascii ''initialized'') (JObj [])"
    by simp
  show ?thesis
    using framing_round_trip[where w = "scripted []" and m = ?q and loads = "loads_only ?q ?n"
          and sent = "send_request (scripted []) (ascii ''initialize'') (JObj []) (JInt 1)"
          and meth = "ascii ''initialize''" and params = "JObj []" and msg_id = "JInt 1"
          and rest = "[67]" and c = False, OF a(1) q lq]
      framing_round_trip[where w = "scripted []" and m = ?n and loads = "loads_only ?q ?n"
          and sent = "send_notification (scripted []) (ascii ''initialized'') (JObj [])"
          and meth = "ascii ''initialized''" and params = "JObj []" and msg_id = JNull
          and rest = "[67]" and c = False, OF a(1) n ln] a lq
    by auto
qed

subsection \<open>A header that is not a number\<close>

text \<open>
  C8, as the code has it. The driver defines no error of its own. When the header block
  is the line \<open>Content-Length: v\<close> and the empty line, where \<open>v\<close> is ASCII text that
  is not blank, and \<open>int\<close> rejects what \<open>line.strip()\<close> leaves of \<open>v\<close>,
  \<open>read_response\<close> ends with the \<open>ValueError\<close> that \<open>int\<close> raises, having read the
  header block and nothing more.
\<close>

theorem not_a_number_raises_ValueError:
  assumes "is_ascii v" "10 \<notin> set v" "rstrip v \<noteq> []" "py_int (rstrip v) = None"
  shows "read_response loads
           \<lparr>data = ascii ''Content-Length: '' @ v @ [13, 10, 13, 10] @ rest, closed = c\<rparr>
     = (Raises ValueError, \<lparr>data = rest, closed = c\<rparr>)"
  using read_response_not_numeric[OF assms] by simp

theorem not_a_number_raises_ValueError_witness:
  "is_ascii (ascii ''12 kB '') \<and> 10 \<notin> set (ascii ''12 kB '')
   \<and> rstrip (ascii ''12 kB '') = ascii ''12 kB''
   \<and> py_int (ascii ''12 kB'') = None
   \<and> read_response rejecting
        \<lparr>data = ascii ''Content-Length: '' @ ascii ''12 kB '' @ [13, 10, 13, 10] @ ascii ''{}'',
           closed = False\<rparr>
      = (Raises ValueError, \<lparr>data = ascii ''{}'', closed = False\<rparr>)"
proof -
  have a: "is_ascii (ascii ''12 kB '')" "10 \<notin> set (ascii ''12 kB '')"
    by (simp_all add: ascii_def)
  have r: "rstrip (ascii ''12 kB '') = ascii ''12 kB''"
    by (simp add: rstrip_def ascii_def is_space_def)
  have b: "py_int (ascii ''12 kB'') = None"
    by (simp add: py_int_def py_nat_def digit_val_def ascii_def is_c_space_def)
  have ne: "rstrip (ascii ''12 kB '') \<noteq> []" unfolding r by (simp add: ascii_def)
  have n: "py_int (rstrip (ascii ''12 kB '')) = None" unfolding r by (rule b)
  show ?thesis
    using not_a_number_raises_ValueError[OF a ne n, of rejecting "ascii ''{}''" False] a r b
    by simp
qed

text \<open>
  A length that is not a number ends in \<open>ValueError\<close>, not in an error of the driver's
  own; a blank length returns \<open>None\<close>; a length that is not UTF-8 ends in
  \<open>UnicodeDecodeError\<close>; a header block that the end of file cuts short before the
  empty line returns \<open>None\<close>; and one that stops short on an open pipe blocks.
\<close>

theorem malformed_header_outcomes:
  "fst (read_response rejecting
          \<lparr>data = ascii ''Content-Length: abc'' @ [13, 10, 13, 10], closed = False\<rparr>)
     = Raises ValueError
   \<and> fst (read_response rejecting
          \<lparr>data = ascii ''Content-Length: '' @ [13, 10, 13, 10], closed = False\<rparr>)
     = Returns None
   \<and> fst (read_response rejecting
          \<lparr>data = ascii ''Content-Length: '' @ [255] @ [13, 10, 13, 10], closed = False\<rparr>)
     = Raises UnicodeDecodeError
   \<and> fst (read_response rejecting
          \<lparr>data = ascii ''Content-Type: text'' @ [13, 10], closed = True\<rparr>)
     = Returns None
   \<and> fst (read_response rejecting
          \<lparr>data = ascii ''Content-Length: 2'' @ [13, 10] @ ascii ''{}'', closed = False\<rparr>)
     = Hangs"
  by code_simp

section \<open>Properties of a session\<close>

subsection \<open>Teardown\<close>

text \<open>
  C3, as the code has it. Whenever \<open>lint_file\<close> returns, the loop having ended by the
  deadline or by \<open>break\<close>, the subprocess has been sent SIGTERM, once, and has been
  reaped.
\<close>

theorem teardown_on_return:
  assumes "fst (lint_file w path root) = Returns ds"
  shows "state (proc (snd (lint_file w path root))) = Reaped
     \<and> signals (proc (snd (lint_file w path root))) = [SIGTERM]"
proof -
  obtain r w' where l: "lint_file w path root = (r, w')" by (cases "lint_file w path root")
  from l have "r = Returns ds \<longrightarrow> state (proc w') = Reaped \<and> signals (proc w') = [SIGTERM]"
  proof (cases rule: lint_file_cases)
    case (launch_failed e)
    then show ?thesis by simp
  next
    case (write_failed r0)
    then show ?thesis by auto
  next
    case (loop_stopped w1 r0)
    then show ?thesis by auto
  next
    case (wait_blocked w1 w2 xs)
    then show ?thesis by simp
  next
    case (finished w1 w2 xs)
    from write_stdin_frame[OF finished(2)] poll_loop_proc[OF finished(3)]
    have p: "proc w2 = proc (popen w)" by simp
    then have "state (proc w2) = Running" "signals (proc w2) = []" by simp_all
    with wait_terminate[OF finished(4), of _ "()"]
    show ?thesis by simp
  qed
  with l assms show ?thesis by simp
qed

text \<open>A run ended by the settle window, and a run ended by the deadline.\<close>

theorem teardown_on_return_witness:
  "fst (lint_file (answering [diagnostic 2 4 0 (ascii ''unused'')] (ascii ''a.cpp''))
          (ascii ''a.cpp'') (ascii ''/r'')) = Returns [diagnostic 2 4 0 (ascii ''unused'')]
   \<and> state (proc (snd (lint_file (answering [diagnostic 2 4 0 (ascii ''unused'')] (ascii ''a.cpp''))
                (ascii ''a.cpp'') (ascii ''/r'')))) = Reaped
   \<and> signals (proc (snd (lint_file (answering [diagnostic 2 4 0 (ascii ''unused'')] (ascii ''a.cpp''))
                (ascii ''a.cpp'') (ascii ''/r'')))) = [SIGTERM]
   \<and> fst (lint_file (scripted []) (ascii ''a.cpp'') (ascii ''/r'')) = Returns []
   \<and> state (proc (snd (lint_file (scripted []) (ascii ''a.cpp'') (ascii ''/r'')))) = Reaped
   \<and> signals (proc (snd (lint_file (scripted []) (ascii ''a.cpp'') (ascii ''/r'')))) = [SIGTERM]"
  using teardown_on_return[OF run_warning] teardown_on_return[OF run_timeout]
    run_warning run_timeout
  by simp

text \<open>
  The file named on the command line does not exist: \<open>open\<close> raises, and \<open>lint_file\<close>
  ends with the subprocess running and no signal sent to it.
\<close>

theorem exception_leaves_subprocess_running:
  "fst (lint_file (unreadable (ascii ''a.cpp'')) (ascii ''a.cpp'') (ascii ''/r''))
     = Raises FileNotFoundError
   \<and> state (proc (snd (lint_file (unreadable (ascii ''a.cpp'')) (ascii ''a.cpp'') (ascii ''/r''))))
     = Running
   \<and> signals (proc (snd (lint_file (unreadable (ascii ''a.cpp'')) (ascii ''a.cpp'') (ascii ''/r''))))
     = []"
  by code_simp

subsection \<open>The deadline\<close>

text \<open>
  C2, as the code has it. A subprocess that was launched, took the \<open>initialize\<close>
  request, never emits output and exits \<open>d\<close> milliseconds after SIGTERM: \<open>lint_file\<close>
  returns the empty list; on the session's clock the loop ends not before the deadline
  of 5000 ms and less than one slice of 100 ms after it, and \<open>proc.wait()\<close> adds the
  \<open>d\<close> milliseconds. Launching and writing take no time on this clock, and the
  deadline is counted from the moment after them.
\<close>

theorem silent_subprocess:
  assumes "launch w = None" "writes_left w \<noteq> Some 0" "\<forall>e \<in> set (script w). silent e"
    and "exits_after (proc w) = Some d"
  shows "fst (lint_file w path root) = Returns []
     \<and> clock w + 5000 + d \<le> clock (snd (lint_file w path root))
     \<and> clock (snd (lint_file w path root)) < clock w + 5000 + 100 + d"
proof -
  from write_stdin_succeeds[of "popen w" "initialize_frame w root"] assms(2)
  obtain w1 where w1: "write_stdin (initialize_frame w root) (popen w) = (Returns (), w1)"
    "script w1 = script w" "clock w1 = clock w" "proc w1 = proc (popen w)" by auto
  have s: "\<And>r0 w2. poll_loop (resolve w1 root path) (clock w1) fresh w1 = (r0, w2) \<Longrightarrow>
     r0 = Returns [] \<and> clock w + 5000 \<le> clock w2 \<and> clock w2 < clock w + 5000 + 100
     \<and> state (proc w2) = Running \<and> exits_after (proc w2) = Some d"
  proof -
    fix r0 w2 assume p: "poll_loop (resolve w1 root path) (clock w1) fresh w1 = (r0, w2)"
    from poll_loop_proc[OF p] w1(4) assms(4)
    have "state (proc w2) = Running \<and> exits_after (proc w2) = Some d" by simp
    with poll_loop_silent[OF p] assms(3) w1(2,3) show
      "r0 = Returns [] \<and> clock w + 5000 \<le> clock w2 \<and> clock w2 < clock w + 5000 + 100
       \<and> state (proc w2) = Running \<and> exits_after (proc w2) = Some d"
      by (simp add: fresh_def)
  qed
  obtain r w' where l: "lint_file w path root = (r, w')" by (cases "lint_file w path root")
  from l have "r = Returns [] \<and> clock w + 5000 + d \<le> clock w'
      \<and> clock w' < clock w + 5000 + 100 + d"
  proof (cases rule: lint_file_cases)
    case (launch_failed e)
    with assms(1) show ?thesis by simp
  next
    case (write_failed r0)
    with w1(1) show ?thesis by simp
  next
    case (loop_stopped w0 r0)
    with w1(1) have "poll_loop (resolve w1 root path) (clock w1) fresh w1 = (r0, w')" by simp
    from s[OF this] loop_stopped(4) show ?thesis by simp
  next
    case (wait_blocked w0 w2 ds)
    with w1(1) have "poll_loop (resolve w1 root path) (clock w1) fresh w1 = (Returns ds, w2)" by simp
    from s[OF this] wait_terminate[OF wait_blocked(4), of _ "()"] show ?thesis by simp
  next
    case (finished w0 w2 ds)
    with w1(1) have "poll_loop (resolve w1 root path) (clock w1) fresh w1 = (Returns ds, w2)" by simp
    from s[OF this] wait_terminate[OF finished(4), of _ "()"] finished(5) show ?thesis by auto
  qed
  with l show ?thesis by simp
qed

theorem silent_subprocess_witness:
  "launch (exiting_after 30 [Nothing 0, Nothing 100]) = None
   \<and> writes_left (exiting_after 30 [Nothing 0, Nothing 100]) \<noteq> Some 0
   \<and> list_all silent (script (exiting_after 30 [Nothing 0, Nothing 100]))
   \<and> exits_after (proc (exiting_after 30 [Nothing 0, Nothing 100])) = Some 30
   \<and> fst (lint_file (exiting_after 30 [Nothing 0, Nothing 100]) (ascii ''a.cpp'') (ascii ''/r''))
       = Returns []
   \<and> 5030 \<le> clock (snd (lint_file (exiting_after 30 [Nothing 0, Nothing 100]) (ascii ''a.cpp'')
                            (ascii ''/r'')))
   \<and> clock (snd (lint_file (exiting_after 30 [Nothing 0, Nothing 100]) (ascii ''a.cpp'')
                     (ascii ''/r''))) < 5130"
proof -
  let ?w = "exiting_after 30 [Nothing 0, Nothing 100]"
  have a: "launch ?w = None" "writes_left ?w \<noteq> Some 0" "\<forall>e \<in> set (script ?w). silent e"
    "exits_after (proc ?w) = Some 30" "clock ?w = 0"
    by (simp_all add: exiting_after_def scripted_def silent_def)
  show ?thesis
    using silent_subprocess[OF a(1-4), of "ascii ''a.cpp''" "ascii ''/r''"] a
    by (simp add: list_all_iff)
qed

text \<open>
  Two subprocesses that never emit output: on one that does not exit on SIGTERM
  \<open>lint_file\<close> never returns, blocked in \<open>proc.wait()\<close> after the deadline; on one that
  has closed its standard input \<open>lint_file\<close> raises \<open>BrokenPipeError\<close>.
\<close>

theorem silent_subprocess_may_not_return:
  "list_all silent (script (ignoring_sigterm []))
   \<and> fst (lint_file (ignoring_sigterm []) (ascii ''a.cpp'') (ascii ''/r'')) = Hangs
   \<and> 5000 \<le> clock (snd (lint_file (ignoring_sigterm []) (ascii ''a.cpp'') (ascii ''/r'')))
   \<and> list_all silent (script broken_stdin)
   \<and> fst (lint_file broken_stdin (ascii ''a.cpp'') (ascii ''/r'')) = Raises BrokenPipeError"
  by code_simp

subsection \<open>The response to initialize\<close>

text \<open>
  C1, as the code has it. The response to \<open>initialize\<close> is recognised by its \<open>result\<close> key,
  not by its identifier. A pass of the loop in a session that is not initialized, reading
  an event that is not a message with a \<open>result\<close> key (and a method other than
  publishDiagnostics), writes nothing to the subprocess and leaves the session not
  initialized and the document not opened. And when no event of the script is such a
  message, all that \<open>lint_file\<close> writes is the \<open>initialize\<close> request.
\<close>

theorem initialize_recognised_by_result:
  "(\<not> initialized st \<and> \<not> file_opened st \<and> (\<forall>e \<in> set (take 1 (script w)). \<not> accepting e)
      \<and> iteration p st w = (r, w')
    \<longrightarrow> stdin_log w' = stdin_log w
        \<and> (\<forall>b st'. r = Returns (b, st') \<longrightarrow> \<not> initialized st' \<and> \<not> file_opened st'))
   \<and> (launch v = None \<and> writes_left v \<noteq> Some 0 \<and> (\<forall>e \<in> set (script v). \<not> accepting e)
    \<longrightarrow> stdin_log (snd (lint_file v path root)) = stdin_log v @ [initialize_frame v root])"
proof (intro conjI impI)
  assume a: "\<not> initialized st \<and> \<not> file_opened st \<and> (\<forall>e \<in> set (take 1 (script w)). \<not> accepting e)
      \<and> iteration p st w = (r, w')"
  then have "iteration p st w = (r, w')" "\<not> initialized st" "\<not> file_opened st"
    "\<forall>e \<in> set (take 1 (script w)). \<not> accepting e" by simp_all
  from iteration_uninitialized[OF this]
  show "stdin_log w' = stdin_log w" "\<forall>b st'. r = Returns (b, st') \<longrightarrow> \<not> initialized st' \<and> \<not> file_opened st'"
    by blast+
next
  assume a: "launch v = None \<and> writes_left v \<noteq> Some 0 \<and> (\<forall>e \<in> set (script v). \<not> accepting e)"
  from write_stdin_succeeds[of "popen v" "initialize_frame v root"] a
  obtain w1 where w1: "write_stdin (initialize_frame v root) (popen v) = (Returns (), w1)"
    "script w1 = script v" "stdin_log w1 = stdin_log v @ [initialize_frame v root]" by auto
  have s: "\<And>r0 w2. poll_loop (resolve w1 root path) (clock w1) fresh w1 = (r0, w2) \<Longrightarrow>
     stdin_log w2 = stdin_log v @ [initialize_frame v root]"
  proof -
    fix r0 w2 assume "poll_loop (resolve w1 root path) (clock w1) fresh w1 = (r0, w2)"
    from poll_loop_uninitialized[OF this] a w1(2,3)
    show "stdin_log w2 = stdin_log v @ [initialize_frame v root]" by (simp add: fresh_def)
  qed
  obtain r w' where l: "lint_file v path root = (r, w')" by (cases "lint_file v path root")
  from l have "stdin_log w' = stdin_log v @ [initialize_frame v root]"
  proof (cases rule: lint_file_cases)
    case (launch_failed e)
    with a show ?thesis by simp
  next
    case (write_failed r0)
    with w1(1) show ?thesis by simp
  next
    case (loop_stopped w0 r0)
    with w1(1) have "poll_loop (resolve w1 root path) (clock w1) fresh w1 = (r0, w')" by simp
    from s[OF this] show ?thesis .
  next
    case (wait_blocked w0 w2 ds)
    with w1(1) have "poll_loop (resolve w1 root path) (clock w1) fresh w1 = (Returns ds, w2)" by simp
    moreover from wait_terminate[OF wait_blocked(4)] have "stdin_log w' = stdin_log w2" by blast
    ultimately show ?thesis using s by simp
  next
    case (finished w0 w2 ds)
    with w1(1) have "poll_loop (resolve w1 root path) (clock w1) fresh w1 = (Returns ds, w2)" by simp
    moreover from wait_terminate[OF finished(4)] have "stdin_log w' = stdin_log w2" by blast
    ultimately show ?thesis using s by simp
  qed
  with l show "stdin_log (snd (lint_file v path root)) = stdin_log v @ [initialize_frame v root]"
    by simp
qed

theorem initialize_recognised_by_result_witness:
  "list_all (\<lambda>e. \<not> accepting e) (script (scripted [Message log_message 5]))
   \<and> stdin_log (snd (iteration (ascii ''/r/a.cpp'') fresh (scripted [Message log_message 5]))) = []
   \<and> stdin_log (snd (lint_file (scripted [Message log_message 5]) (ascii ''a.cpp'') (ascii ''/r'')))
       = [initialize_frame (scripted [Message log_message 5]) (ascii ''/r'')]"
proof -
  let ?w = "scripted [Message log_message 5]"
  have n: "\<not> accepting (Message log_message 5)"
    by (simp add: accepting_def log_message_def has_key_def ascii_def)
  have a: "\<not> initialized fresh" "\<not> file_opened fresh" "launch ?w = None" "writes_left ?w \<noteq> Some 0"
    "\<forall>e \<in> set (take 1 (script ?w)). \<not> accepting e" "\<forall>e \<in> set (script ?w). \<not> accepting e"
    "stdin_log ?w = []"
    using n by (simp_all add: fresh_def scripted_def)
  have i: "iteration (ascii ''/r/a.cpp'') fresh ?w
     = (fst (iteration (ascii ''/r/a.cpp'') fresh ?w), snd (iteration (ascii ''/r/a.cpp'') fresh ?w))"
    by simp
  show ?thesis
    using initialize_recognised_by_result[of fresh ?w "ascii ''/r/a.cpp''"
        "fst (iteration (ascii ''/r/a.cpp'') fresh ?w)" "snd (iteration (ascii ''/r/a.cpp'') fresh ?w)"
        ?w "ascii ''a.cpp''" "ascii ''/r''"] a i
    by (simp add: list_all_iff)
qed

text \<open>
  A response to another identifier, with the response to identifier 1 never arriving:
  the session sends \<open>initialized\<close> and opens the document.
\<close>

theorem other_identifier_initializes:
  "stdin_log (snd (lint_file (scripted [Message (initialize_response 99) 10])
                     (ascii ''a.cpp'') (ascii ''/r'')))
     = [initialize_frame (scripted [Message (initialize_response 99) 10]) (ascii ''/r''),
        content (dumps (notification_message (ascii ''initialized'') (JObj []))),
        content (dumps (notification_message (ascii ''textDocument/didOpen'')
          (JObj [(ascii ''textDocument'',
             JObj [(ascii ''uri'', JStr (ascii ''file:///r/a.cpp'')),
                   (ascii ''languageId'', JStr (ascii ''cpp'')),
                   (ascii ''version'', JInt 1),
                   (ascii ''text'', JStr [])])])))]"
  by code_simp

subsection \<open>Which diagnostics are collected\<close>

text \<open>
  C5, as the code has it. The diagnostics \<open>lint_file\<close> returns are those of all the
  publishDiagnostics notifications it read, in the order of arrival; messages of any
  other kind add nothing; and the \<open>uri\<close> of a notification is not looked at: a
  notification for any document adds its diagnostics.
\<close>

theorem diagnostics_of_any_document:
  "(fst (lint_file w path root) = Returns ds
      \<longrightarrow> (\<exists>c. script w = c @ script (snd (lint_file w path root))
              \<and> ds = concat (map contribution c)))
   \<and> contribution (Message (publish uri items) d) = items
   \<and> (truthy m \<and> get m (ascii ''method'') JNull \<noteq> Inr (JStr publishDiagnostics)
        \<longrightarrow> contribution (Message m d) = [])"
proof (intro conjI impI)
  assume a: "fst (lint_file w path root) = Returns ds"
  obtain r w' where l: "lint_file w path root = (r, w')" by (cases "lint_file w path root")
  from l have "r = Returns ds \<longrightarrow> (\<exists>c. script w = c @ script w' \<and> ds = concat (map contribution c))"
  proof (cases rule: lint_file_cases)
    case (launch_failed e)
    then show ?thesis by simp
  next
    case (write_failed r0)
    then show ?thesis by auto
  next
    case (loop_stopped w1 r0)
    then show ?thesis by auto
  next
    case (wait_blocked w1 w2 xs)
    then show ?thesis by simp
  next
    case (finished w1 w2 xs)
    from poll_loop_collects[OF finished(3)] obtain c where c: "script w1 = c @ script w2"
      "xs = diagnostics fresh @ concat (map contribution c)" by blast
    from wait_terminate[OF finished(4)] have "script w' = script w2" by blast
    then have "script w = c @ script w'"
      using write_stdin_frame[OF finished(2)] c(1) by simp
    moreover have "xs = concat (map contribution c)" using c(2) by (simp add: fresh_def)
    ultimately show ?thesis using finished(5) by blast
  qed
  with a l show "\<exists>c. script w = c @ script (snd (lint_file w path root))
              \<and> ds = concat (map contribution c)" by simp
next
  show "contribution (Message (publish uri items) d) = items"
    by (simp add: contribution_def publish_def get_def published_def iterate_def ascii_def
        publishDiagnostics_def)
next
  assume "truthy m \<and> get m (ascii ''method'') JNull \<noteq> Inr (JStr publishDiagnostics)"
  then show "contribution (Message m d) = []" by (simp add: contribution_def)
qed

theorem diagnostics_of_any_document_witness:
  "(\<exists>c. script (answering [diagnostic 2 4 0 (ascii ''unused'')] (ascii ''a.cpp''))
        = c @ script (snd (lint_file (answering [diagnostic 2 4 0 (ascii ''unused'')] (ascii ''a.cpp''))
                                (ascii ''a.cpp'') (ascii ''/r'')))
      \<and> [diagnostic 2 4 0 (ascii ''unused'')] = concat (map contribution c))
   \<and> truthy log_message
   \<and> contribution (Message log_message 5) = []"
proof -
  have t: "truthy log_message" by (simp add: log_message_def)
  have g: "get log_message (ascii ''method'') JNull \<noteq> Inr (JStr publishDiagnostics)"
    by (simp add: log_message_def get_def ascii_def publishDiagnostics_def)
  show ?thesis
    using diagnostics_of_any_document[of "answering [diagnostic 2 4 0 (ascii ''unused'')] (ascii ''a.cpp'')"
        "ascii ''a.cpp''" "ascii ''/r''" "[diagnostic 2 4 0 (ascii ''unused'')]" _ _ 5 log_message]
      run_warning t g
    by simp
qed

text \<open>
  The document is \<open>file:///r/a.cpp\<close>; the notification is for \<open>file:///r/other.h\<close>; its
  diagnostic is returned.
\<close>

theorem other_document_is_collected:
  "resolve (scripted []) (ascii ''/r'') (ascii ''a.cpp'') = ascii ''/r/a.cpp''
   \<and> fst (lint_file
            (scripted [Message (initialize_response 1) 10,
                       Message (publish (ascii ''file:///r/other.h'') [diagnostic 2 4 0 (ascii ''unused'')]) 10])
            (ascii ''a.cpp'') (ascii ''/r''))
     = Returns [diagnostic 2 4 0 (ascii ''unused'')]"
  by code_simp

section \<open>Properties of the batch driver\<close>

subsection \<open>Exit status\<close>

text \<open>
  C7, as the code has it. Whenever \<open>main\<close> returns, every session has returned, what
  \<open>main\<close> returns is the exit status of the process, and it is 1 if some session
  collected a diagnostic of severity at most 2 and 0 otherwise; with no file to process
  \<open>main\<close> returns 0. A diagnostic of
  severity Error or Warning is one of severity at most 2, a diagnostic of severity
  Information or Hint is not, and a diagnostic without a severity ranks as Error.
\<close>

theorem exit_status:
  "(fst (main render world cwd argv found) = Returns status
      \<longrightarrow> (\<forall>f \<in> set (chosen argv found). \<exists>ds. fst (lint_file (world f) f cwd) = Returns ds)
        \<and> status = (if \<exists>d \<in> set (all_collected world cwd (chosen argv found)). reported d
                    then 1 else 0)
        \<and> process_status (fst (main render world cwd argv found)) = Some status)
   \<and> (chosen argv found = [] \<longrightarrow> fst (main render world cwd argv found) = Returns 0)
   \<and> (error_or_warning x \<longrightarrow> reported x)
   \<and> (information_or_hint x \<longrightarrow> \<not> reported x)"
proof (intro conjI impI)
  assume r: "fst (main render world cwd argv found) = Returns status"
  have e: "(filter reported (all_collected world cwd (chosen argv found)) = [])
      = (\<not> (\<exists>d \<in> set (all_collected world cwd (chosen argv found)). reported d))"
    by (auto simp: filter_empty_conv)
  show "\<forall>f \<in> set (chosen argv found). \<exists>ds. fst (lint_file (world f) f cwd) = Returns ds"
  proof (cases "chosen argv found = []")
    case True
    then show ?thesis by simp
  next
    case False
    from main_returns[OF r False] show ?thesis by blast
  qed
  show s: "status = (if \<exists>d \<in> set (all_collected world cwd (chosen argv found)). reported d
                    then 1 else 0)"
  proof (cases "chosen argv found = []")
    case True
    with r show ?thesis by (simp add: main_no_files)
  next
    case False
    from main_returns[OF r False] e show ?thesis by simp
  qed
  from s have "status = 0 \<or> status = 1" by simp
  with r show "process_status (fst (main render world cwd argv found)) = Some status"
    by (auto simp: process_status_def)
next
  assume "chosen argv found = []"
  then show "fst (main render world cwd argv found) = Returns 0" by (simp add: main_no_files)
next
  assume "error_or_warning x"
  then show "reported x" by (auto simp: error_or_warning_def reported_def)
next
  assume "information_or_hint x"
  then show "\<not> reported x" by (auto simp: information_or_hint_def reported_def)
qed

text \<open>A file with an Information and a Hint, no file at all, and a file with a Warning.\<close>

theorem exit_status_witness:
  "fst (main no_render (answering [diagnostic 3 7 2 (ascii ''note''), diagnostic 4 0 0 (ascii ''hint'')])
          (ascii ''/r'') [ascii ''a.cpp''] []) = Returns 0
   \<and> process_status (fst (main no_render
          (answering [diagnostic 3 7 2 (ascii ''note''), diagnostic 4 0 0 (ascii ''hint'')])
          (ascii ''/r'') [ascii ''a.cpp''] [])) = Some 0
   \<and> information_or_hint (diagnostic 3 7 2 (ascii ''note''))
   \<and> \<not> reported (diagnostic 3 7 2 (ascii ''note''))
   \<and> chosen [] [] = []
   \<and> fst (main no_render (answering []) (ascii ''/r'') [] []) = Returns 0
   \<and> fst (main no_render (answering [diagnostic 2 4 0 (ascii ''unused'')]) (ascii ''/r'')
            [ascii ''a.cpp''] []) = Returns 1
   \<and> process_status (fst (main no_render (answering [diagnostic 2 4 0 (ascii ''unused'')])
          (ascii ''/r'') [ascii ''a.cpp''] [])) = Some 1
   \<and> error_or_warning (diagnostic 2 4 0 (ascii ''unused''))
   \<and> reported (diagnostic 2 4 0 (ascii ''unused''))"
proof -
  let ?h = "answering [diagnostic 3 7 2 (ascii ''note''), diagnostic 4 0 0 (ascii ''hint'')]"
  let ?w = "answering [diagnostic 2 4 0 (ascii ''unused'')]"
  have h: "fst (main no_render ?h (ascii ''/r'') [ascii ''a.cpp''] []) = Returns 0"
    by code_simp
  have w: "fst (main no_render ?w (ascii ''/r'') [ascii ''a.cpp''] []) = Returns 1"
    by code_simp
  have i: "information_or_hint (diagnostic 3 7 2 (ascii ''note''))"
    by (simp add: information_or_hint_def severity_of_diagnostic)
  have e: "error_or_warning (diagnostic 2 4 0 (ascii ''unused''))"
    by (simp add: error_or_warning_def severity_of_diagnostic)
  have c: "chosen [] [] = []" by (simp add: chosen_def)
  show ?thesis
    using exit_status[of no_render ?h "ascii ''/r''" "[ascii ''a.cpp'']" "[]" 0
        "diagnostic 3 7 2 (ascii ''note'')"]
      exit_status[of no_render "answering []" "ascii ''/r''" "[]" "[]" 0
        "diagnostic 3 7 2 (ascii ''note'')"]
      exit_status[of no_render ?w "ascii ''/r''" "[ascii ''a.cpp'']" "[]" 1
        "diagnostic 2 4 0 (ascii ''unused'')"]
      h w i e c
    by simp
qed

text \<open>
  One diagnostic of severity 0, which is neither Error nor Warning: the exit status is
  1. And a clangd that cannot be launched: nothing is collected, \<open>main\<close> ends with the
  exception, and the exit status of the process is 1.
\<close>

theorem status_one_without_error_or_warning:
  "all_collected (answering [diagnostic 0 0 0 (ascii ''zero'')]) (ascii ''/r'') [ascii ''a.cpp'']
     = [diagnostic 0 0 0 (ascii ''zero'')]
   \<and> \<not> error_or_warning (diagnostic 0 0 0 (ascii ''zero''))
   \<and> fst (main no_render (answering [diagnostic 0 0 0 (ascii ''zero'')]) (ascii ''/r'')
            [ascii ''a.cpp''] []) = Returns 1
   \<and> all_collected (\<lambda>path. not_installed) (ascii ''/r'') [ascii ''a.cpp''] = []
   \<and> fst (main no_render (\<lambda>path. not_installed) (ascii ''/r'') [ascii ''a.cpp''] [])
       = Raises FileNotFoundError
   \<and> process_status (fst (main no_render (\<lambda>path. not_installed) (ascii ''/r'')
                             [ascii ''a.cpp''] [])) = Some 1"
  by code_simp

subsection \<open>Printed lines\<close>

text \<open>
  C9, as the code has it. Whenever \<open>main\<close> returns, every session has returned, and
  what \<open>main\<close> has printed between its first line and the summary is exactly one line for every collected diagnostic of
  severity at most 2, file by file and in the order of arrival, and that line is
  \<open><path>:<line>:<col>: warning: <message> [<code>]\<close> with the received zero-based line
  and column plus one; a message or code that is a string is printed as it is, and a
  number is printed in the decimal digits that \<open>int\<close> reads back. Every diagnostic of
  severity Error or Warning is one of severity at most 2.
\<close>

theorem printed_lines:
  assumes "fst (main render world cwd argv found) = Returns status"
    and "chosen argv found \<noteq> []"
  shows "snd (main render world cwd argv found) =
       banner (length (chosen argv found))
       @ concat (map (\<lambda>f. map (\<lambda>d.
             f @ ascii '':'' @ str_int (position d (ascii ''line'') + 1)
             @ ascii '':'' @ str_int (position d (ascii ''character'') + 1)
             @ ascii '': warning: '' @ text_of render (message_of d)
             @ ascii '' ['' @ text_of render (code_of d) @ ascii '']'')
           (filter reported (collected world cwd f))) (chosen argv found))
       @ footer (length (filter reported (all_collected world cwd (chosen argv found))))
     \<and> (\<forall>f \<in> set (chosen argv found). \<exists>ds. fst (lint_file (world f) f cwd) = Returns ds)
     \<and> (error_or_warning x \<longrightarrow> reported x)
     \<and> text_of render (JStr s) = s
     \<and> text_of render (JInt i) = str_int i
     \<and> py_int (str_int i) = Some i"
proof -
  have "file_lines render world cwd = (\<lambda>f. map (\<lambda>d.
             f @ ascii '':'' @ str_int (position d (ascii ''line'') + 1)
             @ ascii '':'' @ str_int (position d (ascii ''character'') + 1)
             @ ascii '': warning: '' @ text_of render (message_of d)
             @ ascii '' ['' @ text_of render (code_of d) @ ascii '']'')
           (filter reported (collected world cwd f)))"
    by (intro ext) (simp add: file_lines_def spec_line_def)
  moreover have "error_or_warning x \<longrightarrow> reported x"
    by (auto simp: error_or_warning_def reported_def)
  ultimately show ?thesis
    using main_returns[OF assms] by (simp add: text_of_def py_int_str_int)
qed

text \<open>A Warning received at zero-based line 4, column 0 is printed as \<open>a.cpp:5:1\<close>.\<close>

theorem printed_lines_witness:
  "fst (main no_render (answering [diagnostic 3 7 2 (ascii ''note''), diagnostic 2 4 0 (ascii ''unused'')])
          (ascii ''/r'') [ascii ''a.cpp''] []) = Returns 1
   \<and> chosen [ascii ''a.cpp''] [] \<noteq> []
   \<and> error_or_warning (diagnostic 2 4 0 (ascii ''unused''))
   \<and> snd (main no_render (answering [diagnostic 3 7 2 (ascii ''note''), diagnostic 2 4 0 (ascii ''unused'')])
            (ascii ''/r'') [ascii ''a.cpp''] [])
     = banner 1 @ [ascii ''a.cpp:5:1: warning: unused []''] @ footer 1"
proof -
  let ?w = "answering [diagnostic 3 7 2 (ascii ''note''), diagnostic 2 4 0 (ascii ''unused'')]"
  have st: "fst (main no_render ?w (ascii ''/r'') [ascii ''a.cpp''] []) = Returns 1"
    by code_simp
  have ne: "chosen [ascii ''a.cpp''] [] \<noteq> []" by (simp add: chosen_def)
  have c: "collected ?w (ascii ''/r'') (ascii ''a.cpp'')
      = [diagnostic 3 7 2 (ascii ''note''), diagnostic 2 4 0 (ascii ''unused'')]"
    by (simp add: collected_def run_note_warning)
  have e: "error_or_warning (diagnostic 2 4 0 (ascii ''unused''))"
    by (simp add: error_or_warning_def severity_of_diagnostic)
  have r: "\<not> reported (diagnostic 3 7 2 (ascii ''note''))"
    "reported (diagnostic 2 4 0 (ascii ''unused''))"
    by (simp_all add: reported_def severity_of_diagnostic)
  have p: "position (diagnostic 2 4 0 (ascii ''unused'')) (ascii ''line'') = 4"
    "position (diagnostic 2 4 0 (ascii ''unused'')) (ascii ''character'') = 0"
    "message_of (diagnostic 2 4 0 (ascii ''unused'')) = JStr (ascii ''unused'')"
    "code_of (diagnostic 2 4 0 (ascii ''unused'')) = JStr []"
    by (simp_all add: position_def message_of_def code_of_def field_def diagnostic_def ascii_def
        number_def)
  have s: "str_int 5 = [53]" "str_int 1 = [49]"
    by (simp_all add: str_int_def decimal.simps)
  show ?thesis
    using printed_lines[OF st ne, of "diagnostic 2 4 0 (ascii ''unused'')"] st ne e
    by (simp add: chosen_def c r p s text_of_def)
       (simp add: ascii_def)
qed

text \<open>
  A Warning that is collected and not printed: the diagnostic before it is a number, not
  a record, and \<open>main\<close> ends with \<open>AttributeError\<close>. And a Warning whose message holds a
  lone surrogate: \<open>print\<close> raises \<open>UnicodeEncodeError\<close>. In both runs only the first
  line has been printed.
\<close>

theorem collected_warning_not_printed:
  "fst (lint_file (answering [JInt 5, diagnostic 2 4 0 (ascii ''unused'')] (ascii ''a.cpp''))
          (ascii ''a.cpp'') (ascii ''/r''))
     = Returns [JInt 5, diagnostic 2 4 0 (ascii ''unused'')]
   \<and> error_or_warning (diagnostic 2 4 0 (ascii ''unused''))
   \<and> main no_render (answering [JInt 5, diagnostic 2 4 0 (ascii ''unused'')]) (ascii ''/r'')
        [ascii ''a.cpp''] []
     = (Raises AttributeError, banner 1)
   \<and> fst (lint_file (answering [diagnostic 2 4 0 [55296]] (ascii ''a.cpp''))
          (ascii ''a.cpp'') (ascii ''/r''))
     = Returns [diagnostic 2 4 0 [55296]]
   \<and> error_or_warning (diagnostic 2 4 0 [55296])
   \<and> main no_render (answering [diagnostic 2 4 0 [55296]]) (ascii ''/r'') [ascii ''a.cpp''] []
     = (Raises UnicodeEncodeError, banner 1)"
  by code_simp

subsection \<open>A diagnostic without a severity\<close>



subsection \<open>A session that fails\<close>

text \<open>
  C4, as the code has it. \<open>lint_file\<close> and \<open>main\<close> catch nothing. When, after the
  files before it were processed, the session of a file cannot launch clangd, cannot
  write the \<open>initialize\<close> request, or meets a read that raises (anywhere among the
  events it takes from the script), \<open>lint_file\<close> raises that exception and \<open>main\<close> ends
  with it; what \<open>main\<close> has printed are the first line and the lines of the files
  before: nothing for the files after, and no summary.
\<close>

theorem session_failure_ends_batch:
  assumes "chosen argv found = pre @ path # post"
    and "check_files render world cwd pre (banner (length (chosen argv found)), 0)
           = (Returns (), (out, n))"
    and "launch (world path) = Some e
       \<or> launch (world path) = None \<and> writes_left (world path) = Some 0 \<and> e = BrokenPipeError
       \<or> (\<exists>c d. script (world path) = c @ script (snd (lint_file (world path) path cwd))
                \<and> Failure e d \<in> set c)"
  shows "fst (lint_file (world path) path cwd) = Raises e
     \<and> main render world cwd argv found =
         (Raises e,
          banner (length (chosen argv found))
          @ concat (map (file_lines render world cwd) pre))"
proof -
  from assms(3) have l: "fst (lint_file (world path) path cwd) = Raises e"
  proof (elim disjE conjE exE)
    assume "launch (world path) = Some e"
    then show ?thesis by (simp add: lint_file_launch_failure)
  next
    assume "launch (world path) = None" "writes_left (world path) = Some 0" "e = BrokenPipeError"
    then show ?thesis by (simp add: lint_file_write_failure)
  next
    fix c d
    assume "script (world path) = c @ script (snd (lint_file (world path) path cwd))"
      "Failure e d \<in> set c"
    then show ?thesis by (rule lint_file_read_failure)
  qed
  from assms(1) have ne: "chosen argv found \<noteq> []" by simp
  from check_files_returns[OF assms(2)]
  have out: "out = banner (length (chosen argv found))
          @ concat (map (file_lines render world cwd) pre)"
    by simp
  have "check_files render world cwd (pre @ path # post) (banner (length (chosen argv found)), 0)
      = (Raises e, (out, n))"
    by (simp add: check_files_append assms(2) l)
  with ne assms(1) out l show ?thesis by (simp add: main_unfold)
qed

text \<open>
  Three files; the session of the second reads a log message and then a header whose
  length is not a number, or cannot launch clangd, or cannot write to it.
\<close>

theorem session_failure_ends_batch_witness:
  "chosen three_files [] = [ascii ''a.cpp''] @ ascii ''b.cpp'' # [ascii ''c.cpp'']
   \<and> check_files no_render (batch_with failing_read) (ascii ''/r'') [ascii ''a.cpp''] (banner 3, 0)
       = (Returns (), (banner 3 @ [ascii ''a.cpp:5:1: warning: unused []''], 1))
   \<and> script failing_read
       = [Message log_message 5, Failure ValueError 0]
         @ script (snd (lint_file failing_read (ascii ''b.cpp'') (ascii ''/r'')))
   \<and> main no_render (batch_with failing_read) (ascii ''/r'') three_files []
       = (Raises ValueError, banner 3 @ [ascii ''a.cpp:5:1: warning: unused []''])
   \<and> launch not_installed = Some FileNotFoundError
   \<and> main no_render (batch_with not_installed) (ascii ''/r'') three_files []
       = (Raises FileNotFoundError, banner 3 @ [ascii ''a.cpp:5:1: warning: unused []''])
   \<and> launch broken_stdin = None \<and> writes_left broken_stdin = Some 0
   \<and> main no_render (batch_with broken_stdin) (ascii ''/r'') three_files []
       = (Raises BrokenPipeError, banner 3 @ [ascii ''a.cpp:5:1: warning: unused []''])"
proof -
  have ch: "chosen three_files [] = [ascii ''a.cpp''] @ ascii ''b.cpp'' # [ascii ''c.cpp'']"
    by (simp add: chosen_def three_files_def)
  have len: "length (chosen three_files []) = 3" by (simp add: ch)
  have b: "\<And>s. batch_with s (ascii ''b.cpp'') = s" "\<And>s. batch_with s (ascii ''a.cpp'')
      = answering [diagnostic 2 4 0 (ascii ''unused'')] (ascii ''a.cpp'')"
    by (simp_all add: batch_with_def ascii_def)
  have pre: "\<And>s. check_files no_render (batch_with s) (ascii ''/r'') [ascii ''a.cpp'']
        (banner (length (chosen three_files [])), 0)
      = (Returns (), (banner 3 @ [ascii ''a.cpp:5:1: warning: unused []''], 1))"
  proof -
    fix s
    have "report no_render (ascii ''a.cpp'') [diagnostic 2 4 0 (ascii ''unused'')] (banner 3, 0)
        = (Returns (), (banner 3 @ [ascii ''a.cpp:5:1: warning: unused []''], 1))"
      by code_simp
    then show "check_files no_render (batch_with s) (ascii ''/r'') [ascii ''a.cpp'']
        (banner (length (chosen three_files [])), 0)
      = (Returns (), (banner 3 @ [ascii ''a.cpp:5:1: warning: unused []''], 1))"
      by (simp add: len b run_warning)
  qed
  have sc: "script failing_read
       = [Message log_message 5, Failure ValueError 0]
         @ script (snd (lint_file failing_read (ascii ''b.cpp'') (ascii ''/r'')))"
    by code_simp
  have c1: "launch (batch_with failing_read (ascii ''b.cpp'')) = Some ValueError
       \<or> launch (batch_with failing_read (ascii ''b.cpp'')) = None
         \<and> writes_left (batch_with failing_read (ascii ''b.cpp'')) = Some 0
         \<and> ValueError = BrokenPipeError
       \<or> (\<exists>c d. script (batch_with failing_read (ascii ''b.cpp''))
                  = c @ script (snd (lint_file (batch_with failing_read (ascii ''b.cpp''))
                                       (ascii ''b.cpp'') (ascii ''/r'')))
                \<and> Failure ValueError d \<in> set c)"
    unfolding b using sc by (intro disjI2 exI[of _ "[Message log_message 5, Failure ValueError 0]"]
        exI[of _ 0]) simp
  have l2: "launch not_installed = Some FileNotFoundError" by (simp add: not_installed_def)
  have c2: "launch (batch_with not_installed (ascii ''b.cpp'')) = Some FileNotFoundError
       \<or> launch (batch_with not_installed (ascii ''b.cpp'')) = None
         \<and> writes_left (batch_with not_installed (ascii ''b.cpp'')) = Some 0
         \<and> FileNotFoundError = BrokenPipeError
       \<or> (\<exists>c d. script (batch_with not_installed (ascii ''b.cpp''))
                  = c @ script (snd (lint_file (batch_with not_installed (ascii ''b.cpp''))
                                       (ascii ''b.cpp'') (ascii ''/r'')))
                \<and> Failure FileNotFoundError d \<in> set c)"
    unfolding b using l2 by simp
  have l3: "launch broken_stdin = None" "writes_left broken_stdin = Some 0"
    by (simp_all add: broken_stdin_def scripted_def)
  have c3: "launch (batch_with broken_stdin (ascii ''b.cpp'')) = Some BrokenPipeError
       \<or> launch (batch_with broken_stdin (ascii ''b.cpp'')) = None
         \<and> writes_left (batch_with broken_stdin (ascii ''b.cpp'')) = Some 0
         \<and> BrokenPipeError = BrokenPipeError
       \<or> (\<exists>c d. script (batch_with broken_stdin (ascii ''b.cpp''))
                  = c @ script (snd (lint_file (batch_with broken_stdin (ascii ''b.cpp''))
                                       (ascii ''b.cpp'') (ascii ''/r'')))
                \<and> Failure BrokenPipeError d \<in> set c)"
    unfolding b using l3 by simp
  have fl: "\<And>s. concat (map (file_lines no_render (batch_with s) (ascii ''/r''))
                      [ascii ''a.cpp'']) = [ascii ''a.cpp:5:1: warning: unused []'']"
  proof -
    fix s
    have "map (spec_line no_render (ascii ''a.cpp''))
            (filter reported [diagnostic 2 4 0 (ascii ''unused'')])
        = [ascii ''a.cpp:5:1: warning: unused []'']"
      by code_simp
    then show "concat (map (file_lines no_render (batch_with s) (ascii ''/r''))
                      [ascii ''a.cpp'']) = [ascii ''a.cpp:5:1: warning: unused []'']"
      by (simp add: file_lines_def collected_def b run_warning)
  qed
  have o: "\<And>s. banner (length (chosen three_files []))
        @ concat (map (file_lines no_render (batch_with s) (ascii ''/r'')) [ascii ''a.cpp''])
      = banner 3 @ [ascii ''a.cpp:5:1: warning: unused []'']"
    by (simp only: len fl)
  from session_failure_ends_batch[OF ch pre c1]
  have m1: "main no_render (batch_with failing_read) (ascii ''/r'') three_files []
       = (Raises ValueError, banner 3 @ [ascii ''a.cpp:5:1: warning: unused []''])"
    unfolding o by (rule conjunct2)
  from session_failure_ends_batch[OF ch pre c2]
  have m2: "main no_render (batch_with not_installed) (ascii ''/r'') three_files []
       = (Raises FileNotFoundError, banner 3 @ [ascii ''a.cpp:5:1: warning: unused []''])"
    unfolding o by (rule conjunct2)
  from session_failure_ends_batch[OF ch pre c3]
  have m3: "main no_render (batch_with broken_stdin) (ascii ''/r'') three_files []
       = (Raises BrokenPipeError, banner 3 @ [ascii ''a.cpp:5:1: warning: unused []''])"
    unfolding o by (rule conjunct2)
  note p3 = pre[of failing_read, unfolded len]
  show ?thesis
    by (intro conjI) (fact ch p3 sc m1 l2 m2 l3 m3)+
qed

text \<open>
  The session of \<open>b.cpp\<close> raises: \<open>main\<close> ends with the exception, although the session
  of \<open>c.cpp\<close> would have returned an Error.
\<close>

theorem one_bad_file_aborts_the_run:
  "main no_render (batch_with failing_read) (ascii ''/r'') three_files []
     = (Raises ValueError, banner 3 @ [ascii ''a.cpp:5:1: warning: unused []''])
   \<and> fst (lint_file (batch_with failing_read (ascii ''c.cpp'')) (ascii ''c.cpp'') (ascii ''/r''))
     = Returns [diagnostic 1 0 0 (ascii ''broken'')]"
  by code_simp

end
